theory Spec2Isabelle
  imports Complex_Main
begin

section \<open>Numbers\<close>

text \<open>
  Tensor entries are floating-point numbers. They are modelled as \<open>real option\<close>:
  \<open>None\<close> is NaN, the sentinel of a vehicle that is not present, and \<open>Some r\<close> is the
  number \<open>r\<close>. NaN propagates through every operation and every comparison with NaN
  is false, as in IEEE arithmetic; infinities are not modelled. The operations \<open>fadd\<close>,
  \<open>fsub\<close> and \<open>fmul\<close> below are exact; they serve the projections, the paths and the
  polygons, where what matters is which formula is applied to which entries. The state
  integrator uses the rounded operations \<open>radd\<close> and \<open>rmul\<close> further down.
\<close>

type_synonym fl = "real option"

definition isnan :: "fl \<Rightarrow> bool" where
  "isnan a = (a = None)"

definition fl1 :: "(real \<Rightarrow> real) \<Rightarrow> fl \<Rightarrow> fl" where
  "fl1 f a = (case a of None \<Rightarrow> None | Some x \<Rightarrow> Some (f x))"

definition fl2 :: "(real \<Rightarrow> real \<Rightarrow> real) \<Rightarrow> fl \<Rightarrow> fl \<Rightarrow> fl" where
  "fl2 f a b = (case a of None \<Rightarrow> None
                | Some x \<Rightarrow> (case b of None \<Rightarrow> None | Some y \<Rightarrow> Some (f x y)))"

definition fadd :: "fl \<Rightarrow> fl \<Rightarrow> fl" where
  "fadd = fl2 (+)"

definition fsub :: "fl \<Rightarrow> fl \<Rightarrow> fl" where
  "fsub = fl2 (-)"

definition fmul :: "fl \<Rightarrow> fl \<Rightarrow> fl" where
  "fmul = fl2 (*)"

definition fcos :: "fl \<Rightarrow> fl" where
  "fcos = fl1 cos"

definition fsin :: "fl \<Rightarrow> fl" where
  "fsin = fl1 sin"

definition fneg :: "fl \<Rightarrow> fl" where
  "fneg = fl1 uminus"

definition fgt :: "fl \<Rightarrow> fl \<Rightarrow> bool" where
  "fgt a b = (case a of None \<Rightarrow> False
              | Some x \<Rightarrow> (case b of None \<Rightarrow> False | Some y \<Rightarrow> x > y))"

definition fle :: "fl \<Rightarrow> fl \<Rightarrow> bool" where
  "fle a b = (case a of None \<Rightarrow> False
              | Some x \<Rightarrow> (case b of None \<Rightarrow> False | Some y \<Rightarrow> x \<le> y))"

text \<open>\<open>Tensor.clamp(lo, hi)\<close>: \<open>min(max(x, lo), hi)\<close>, NaN stays NaN.\<close>

definition clamp :: "real \<Rightarrow> real \<Rightarrow> fl \<Rightarrow> fl" where
  "clamp lo hi = fl1 (\<lambda>x. min (max x lo) hi)"

text \<open>\<open>Tensor.clamp(0., np.inf)\<close>: there is no upper bound.\<close>

definition clamp_nonneg :: "fl \<Rightarrow> fl" where
  "clamp_nonneg = fl1 (\<lambda>x. max x 0)"

text \<open>
  Rounding. An arithmetic operation on floats returns the exact result rounded to the
  format of the tensors. \<open>fl_round p\<close> rounds to the nearest number with a significand
  of \<open>p\<close> bits, ties to the even significand (the exponent range is not bounded);
  \<open>binary64\<close> is the rounding of double precision.
\<close>

definition round_even :: "real \<Rightarrow> int" where
  "round_even x =
     (let f = \<lfloor>x\<rfloor>; d = x - of_int f
      in if d < 1 / 2 then f else if 1 / 2 < d then f + 1 else if even f then f else f + 1)"

definition fl_round :: "nat \<Rightarrow> real \<Rightarrow> real" where
  "fl_round p x =
     (if x = 0 then 0
      else let e = \<lfloor>log 2 \<bar>x\<bar>\<rfloor>;
               u = 2 powr (of_int e - real p + 1)
           in of_int (round_even (x / u)) * u)"

definition binary64 :: "real \<Rightarrow> real" where
  "binary64 = fl_round 53"

text \<open>Addition and multiplication of floats with the rounding \<open>r\<close>.\<close>

definition radd :: "(real \<Rightarrow> real) \<Rightarrow> fl \<Rightarrow> fl \<Rightarrow> fl" where
  "radd r = fl2 (\<lambda>x y. r (x + y))"

definition rmul :: "(real \<Rightarrow> real) \<Rightarrow> fl \<Rightarrow> fl \<Rightarrow> fl" where
  "rmul r = fl2 (\<lambda>x y. r (x * y))"

section \<open>Heading wrapping\<close>

text \<open>
  The remainder of the tensor library for a positive divisor: the result has the sign
  of the divisor, so it is never negative.
\<close>

definition rmod :: "real \<Rightarrow> real \<Rightarrow> real" where
  "rmod x m = x - m * of_int \<lfloor>x / m\<rfloor>"

text \<open>
  Modelled from the spec: \<open>to_circle\<close> of \<open>intersim.utils\<close> is not among the sources.
  The spec gives the reduction as \<open>((\<psi> + \<pi>) mod 2\<pi>) - \<pi>\<close>, with mod always returning
  a non-negative remainder.
\<close>

definition to_circle :: "real \<Rightarrow> real" where
  "to_circle psi = rmod (psi + pi) (2 * pi) - pi"

definition fto_circle :: "fl \<Rightarrow> fl" where
  "fto_circle = fl1 to_circle"

section \<open>The state integrator\<close>

text \<open>
  The fields of \<open>InteractionSimulator\<close> that never change after construction: the track
  data of the stacked vehicle trajectory (\<open>svt\<close>) and the configuration. Tensors of
  the track data have one entry (or one coefficient row) for each vehicle. \<open>rnd\<close> is the
  rounding of the floating-point format of the state and action tensors.
\<close>

record sim_params =
  nv :: nat
  dt :: real
  minT :: real
  smax :: "fl list"
  t0 :: "fl list"
  s0 :: "fl list"
  v0 :: "fl list"
  state0 :: "(fl \<times> fl) list"
  min_acc :: real
  max_acc :: real
  xpoly :: "fl list list"
  ypoly :: "fl list list"
  dxpoly :: "fl list list"
  dypoly :: "fl list list"
  lengths :: "fl list"
  widths :: "fl list"
  stop_on_collision :: bool
  check_collisions_flag :: bool
  mask_relstate :: bool
  rnd :: "real \<Rightarrow> real"

text \<open>An arc state is the row \<open>(s, sdot)\<close> of one vehicle; an action tensor of shape
  \<open>(nv, 1)\<close> is the list of its entries.\<close>

type_synonym arc = "fl \<times> fl"

datatype error = Nan_action | Assertion_error

text \<open>
  Modelled from the spec: \<open>Box.contains\<close> of \<open>intersim\<close> is not among the sources. The
  spec clamps the action "if any component lies outside" the bounds, so the action
  space contains an action whose components all lie within the bounds. The functions
  below take the membership test as a parameter; this one instantiates it.
\<close>

definition box_contains :: "real \<Rightarrow> real \<Rightarrow> fl list \<Rightarrow> bool" where
  "box_contains lo hi a =
     list_all (\<lambda>x. case x of None \<Rightarrow> False | Some r \<Rightarrow> lo \<le> r \<and> r \<le> hi) a"

text \<open>
  The Euler step shared, line for line, by \<open>_next_state\<close> and \<open>_next_state_batch\<close>:
  next speed, clamped at zero; next position by the trapezoidal rule; the vehicles past
  their track, whose rows are overwritten with NaN. Each sum and each product is
  rounded; a scalar (\<open>self._dt\<close>, \<open>0.5*self._dt\<close>) that multiplies a tensor is first
  converted to the format of the tensor. The clamp and the comparison are exact.
\<close>

definition euler_step :: "sim_params \<Rightarrow> arc list \<Rightarrow> fl list \<Rightarrow> arc list \<times> bool list" where
  "euler_step P state action =
     (let nextv = map2 (\<lambda>x a. clamp_nonneg
                     (radd (rnd P) (snd x) (rmul (rnd P) a (Some (rnd P (dt P)))))) state action;
          next_state = map2 (\<lambda>x nv'. (radd (rnd P) (fst x)
                          (rmul (rnd P) (Some (rnd P (0.5 * dt P))) (radd (rnd P) nv' (snd x))), nv'))
                         state nextv;
          exceeded = map2 (\<lambda>x m. fgt (fst x) m) next_state (smax P)
      in (map2 (\<lambda>x e. if e then (None, None) else x) next_state exceeded, exceeded))"

text \<open>
  \<open>_next_state\<close>: raises when a vehicle with a defined position has a NaN action, sets
  the NaN actions to zero, clamps the action if the action space does not contain it,
  and steps. It returns the next state, the action taken and the exceeded flags.
\<close>

definition next_state ::
  "sim_params \<Rightarrow> (fl list \<Rightarrow> bool) \<Rightarrow> arc list \<Rightarrow> fl list \<Rightarrow> error + (arc list \<times> fl list \<times> bool list)" where
  "next_state P contains state action =
     (let nns = map (\<lambda>x. \<not> isnan (fst x)) state;
          nna = map (\<lambda>a. \<not> isnan a) action;
          nns_na = map2 (\<lambda>s a. s \<and> \<not> a) nns nna
      in if list_ex (\<lambda>b. b) nns_na then Inl Nan_action
         else
           let action1 = map (\<lambda>a. if isnan a then Some 0 else a) action;
               action2 = (if \<not> contains action1
                          then map (clamp (min_acc P) (max_acc P)) action1 else action1);
               (next, exceeded) = euler_step P state action2
           in Inr (next, action2, exceeded))"

text \<open>
  \<open>_next_state_batch\<close> on one element of the leading dimensions: no check of the
  actions, the clamp is unconditional, and nothing raises.
\<close>

definition next_state_batch1 :: "sim_params \<Rightarrow> arc list \<Rightarrow> fl list \<Rightarrow> arc list \<times> fl list \<times> bool list" where
  "next_state_batch1 P state action =
     (let action2 = map (clamp (min_acc P) (max_acc P)) action;
          (next, exceeded) = euler_step P state action2
      in (next, action2, exceeded))"

text \<open>The leading dimensions \<open>(...)\<close>, flattened into one list.\<close>

definition next_state_batch ::
  "sim_params \<Rightarrow> arc list list \<Rightarrow> fl list list \<Rightarrow> (arc list \<times> fl list \<times> bool list) list" where
  "next_state_batch P states actions = map2 (next_state_batch1 P) states actions"

section \<open>Collision detection\<close>

text \<open>A row \<open>[x, y, v, psi, psidot]\<close> of a projected state.\<close>

record pose =
  px :: fl
  py :: fl
  vel :: fl
  psi :: fl
  psidot :: fl

text \<open>
  A polygon is the list of its corners. The overlap test of two polygons belongs to the
  geometry library, not to the repository: the functions below take it as the
  parameter \<open>intersects\<close>, called as \<open>polys_t[i].intersects(polys_t[j])\<close>.
\<close>

type_synonym point = "fl \<times> fl"

type_synonym polygon = "point list"

definition vadd :: "point \<Rightarrow> point \<Rightarrow> point" where
  "vadd p q = (fadd (fst p) (fst q), fadd (snd p) (snd q))"

definition vsub :: "point \<Rightarrow> point \<Rightarrow> point" where
  "vsub p q = (fsub (fst p) (fst q), fsub (snd p) (snd q))"

definition vscale :: "fl \<Rightarrow> point \<Rightarrow> point" where
  "vscale k p = (fmul k (fst p), fmul k (snd p))"

definition fhalf :: "fl \<Rightarrow> fl" where
  "fhalf = fl1 (\<lambda>x. x / 2)"

definition state_to_polygon :: "pose \<Rightarrow> fl \<Rightarrow> fl \<Rightarrow> polygon" where
  "state_to_polygon x len width =
     (let pxy = (px x, py x);
          c = fcos (psi x);
          s = fsin (psi x);
          lon = (c, s);
          lat = (fneg s, c);
          ul = vadd (vadd pxy (vscale (fhalf len) lon)) (vscale (fhalf width) lat);
          ur = vsub (vadd pxy (vscale (fhalf len) lon)) (vscale (fhalf width) lat);
          ll = vadd (vsub pxy (vscale (fhalf len) lon)) (vscale (fhalf width) lat);
          lr = vsub (vsub pxy (vscale (fhalf len) lon)) (vscale (fhalf width) lat)
      in [ll, lr, ur, ul])"

text \<open>Indexing with a boolean mask, \<open>xs[bs]\<close>: the entries whose flag is set, in order.\<close>

definition mask :: "'a list \<Rightarrow> bool list \<Rightarrow> 'a list" where
  "mask xs bs = map fst (filter snd (zip xs bs))"

text \<open>
  \<open>states_to_polygons\<close>: one polygon for each vehicle whose first coordinate is not
  NaN, and the indices of those vehicles (\<open>torch.where(nni)[0]\<close>).
\<close>

definition states_to_polygons :: "pose list \<Rightarrow> fl list \<Rightarrow> fl list \<Rightarrow> polygon list \<times> nat list" where
  "states_to_polygons x lens wids =
     (let nni = map (\<lambda>p. \<not> isnan (px p)) x;
          vp = map (\<lambda>(x', li, wi). state_to_polygon x' li wi)
                 (zip (mask x nni) (zip (mask lens nni) (mask wids nni)));
          inds = filter (\<lambda>i. nni ! i) [0..<length nni]
      in (vp, inds))"

text \<open>
  A collision matrix is a list of rows. Its entries are the floats 0 and 1, and sums of
  them in the trajectory count; they are modelled as natural numbers.
\<close>

type_synonym matrix = "nat list list"

definition zeros :: "nat \<Rightarrow> nat \<Rightarrow> matrix" where
  "zeros n m = replicate n (replicate m 0)"

definition mget :: "matrix \<Rightarrow> nat \<Rightarrow> nat \<Rightarrow> nat" where
  "mget c i j = c ! i ! j"

definition mset :: "nat \<Rightarrow> nat \<Rightarrow> nat \<Rightarrow> matrix \<Rightarrow> matrix" where
  "mset i j v c = c[i := (c ! i)[j := v]]"

text \<open>
  The two loops of \<open>collision_matrix\<close>: \<open>i\<close> from 1 below \<open>nv\<close>, \<open>j\<close> below \<open>i\<close>; a
  pair that intersects is written at \<open>[nni_t[i], nni_t[j]]\<close> and at
  \<open>[nni_t[j], nni_t[i]]\<close>.
\<close>

definition fill_pairs ::
  "(polygon \<Rightarrow> polygon \<Rightarrow> bool) \<Rightarrow> polygon list \<Rightarrow> nat list \<Rightarrow> matrix \<Rightarrow> matrix" where
  "fill_pairs intersects polys_t nni_t c_mat =
     foldl (\<lambda>c i.
        foldl (\<lambda>c j.
           if intersects (polys_t ! i) (polys_t ! j)
           then mset (nni_t ! j) (nni_t ! i) 1 (mset (nni_t ! i) (nni_t ! j) 1 c)
           else c) c [0..<i])
       c_mat [1..<length polys_t]"

definition collision_matrix ::
  "(polygon \<Rightarrow> polygon \<Rightarrow> bool) \<Rightarrow> pose list \<Rightarrow> fl list \<Rightarrow> fl list \<Rightarrow> matrix" where
  "collision_matrix intersects x lens wids =
     (let nv0 = length lens;
          c_mat = zeros nv0 nv0;
          (polys_t, nni_t) = states_to_polygons x lens wids
      in fill_pairs intersects polys_t nni_t c_mat)"

text \<open>\<open>np.count_nonzero\<close> of a matrix.\<close>

definition count_nonzero :: "matrix \<Rightarrow> nat" where
  "count_nonzero c = sum_list (map (\<lambda>row. length (filter (\<lambda>v. v \<noteq> 0) row)) c)"

definition count_collisions ::
  "(polygon \<Rightarrow> polygon \<Rightarrow> bool) \<Rightarrow> pose list \<Rightarrow> fl list \<Rightarrow> fl list \<Rightarrow> nat" where
  "count_collisions intersects x lens wids =
     count_nonzero (collision_matrix intersects x lens wids) div 2"

definition check_collisions ::
  "(polygon \<Rightarrow> polygon \<Rightarrow> bool) \<Rightarrow> pose list \<Rightarrow> fl list \<Rightarrow> fl list \<Rightarrow> bool" where
  "check_collisions intersects x lens wids = (count_collisions intersects x lens wids > 0)"

text \<open>\<open>cols += m\<close>, entry by entry.\<close>

definition madd :: "matrix \<Rightarrow> matrix \<Rightarrow> matrix" where
  "madd a b = map2 (map2 (+)) a b"

text \<open>
  \<open>count_collisions_trajectory\<close>. The tensor \<open>x\<close> of shape \<open>(T, nv, 5)\<close> is the list of
  its \<open>T\<close> frames; \<open>nv0\<close> is the number of rows of a frame (with no frame the sum has no
  entry other than zero, whatever \<open>nv0\<close> is).
\<close>

definition count_collisions_trajectory ::
  "(polygon \<Rightarrow> polygon \<Rightarrow> bool) \<Rightarrow> pose list list \<Rightarrow> fl list \<Rightarrow> fl list \<Rightarrow> nat" where
  "count_collisions_trajectory intersects x lens wids =
     (let nv0 = (case x of [] \<Rightarrow> 0 | x0 # _ \<Rightarrow> length x0);
          cols = foldl (\<lambda>cols xt. madd cols (collision_matrix intersects xt lens wids))
                   (zeros nv0 nv0) x
      in count_nonzero cols div 2)"

definition check_collisions_trajectory ::
  "(polygon \<Rightarrow> polygon \<Rightarrow> bool) \<Rightarrow> pose list list \<Rightarrow> fl list \<Rightarrow> fl list \<Rightarrow> bool list" where
  "check_collisions_trajectory intersects x lens wids =
     map (\<lambda>xt. check_collisions intersects xt lens wids) x"

text \<open>
  What the matrix records of a pair of vehicles of a frame, by their indices in the
  frame: both are present, they differ, and the polygon of the one with the larger
  index intersects the polygon of the other.
\<close>

definition vehicle_polygon :: "pose list \<Rightarrow> fl list \<Rightarrow> fl list \<Rightarrow> nat \<Rightarrow> polygon" where
  "vehicle_polygon x lens wids a = state_to_polygon (x ! a) (lens ! a) (wids ! a)"

definition pair_collides ::
  "(polygon \<Rightarrow> polygon \<Rightarrow> bool) \<Rightarrow> pose list \<Rightarrow> fl list \<Rightarrow> fl list \<Rightarrow> nat \<Rightarrow> nat \<Rightarrow> bool" where
  "pair_collides intersects x lens wids a b =
     (a \<noteq> b \<and> \<not> isnan (px (x ! a)) \<and> \<not> isnan (px (x ! b)) \<and>
      intersects (vehicle_polygon x lens wids (max a b)) (vehicle_polygon x lens wids (min a b)))"

text \<open>
  An overlap test for the examples: the coordinate ranges of the two polygons
  overlap. For rectangles with heading 0, whose sides are parallel to the axes, this
  is exactly whether they share a point.
\<close>

fun bbox :: "polygon \<Rightarrow> (real \<times> real \<times> real \<times> real) option" where
  "bbox [] = None"
| "bbox [(Some a, Some b)] = Some (a, a, b, b)"
| "bbox ((Some a, Some b) # p) =
     (case bbox p of None \<Rightarrow> None
      | Some (x0, x1, y0, y1) \<Rightarrow> Some (min a x0, max a x1, min b y0, max b y1))"
| "bbox _ = None"

definition aabb_intersects :: "polygon \<Rightarrow> polygon \<Rightarrow> bool" where
  "aabb_intersects p q =
     (case bbox p of None \<Rightarrow> False
      | Some (a0, a1, b0, b1) \<Rightarrow>
          (case bbox q of None \<Rightarrow> False
           | Some (c0, c1, d0, d1) \<Rightarrow> a0 \<le> c1 \<and> c0 \<le> a1 \<and> b0 \<le> d1 \<and> d0 \<le> b1))"

text \<open>Notions used to state facts about the collision matrix: the indices of the
  vehicles present in a frame, in increasing order, and a square matrix of a given size.\<close>

definition active_inds :: "pose list \<Rightarrow> nat list" where
  "active_inds x = filter (\<lambda>i. \<not> isnan (px (x ! i))) [0..<length x]"

definition dims :: "matrix \<Rightarrow> nat \<Rightarrow> bool" where
  "dims c n = (length c = n \<and> (\<forall>i<n. length (c ! i) = n))"

section \<open>Paths\<close>

text \<open>
  Modelled from the spec: \<open>horner_scheme\<close> of \<open>intersim.utils\<close> is not among the
  sources. The spec evaluates a polynomial, given by its coefficients with the highest
  degree first, by nested multiplication (Horner's scheme), for each vehicle with the
  vehicle's own coefficients.
\<close>

definition horner_scheme :: "fl \<Rightarrow> fl list \<Rightarrow> fl" where
  "horner_scheme s coefs = foldl (\<lambda>acc c. fadd (fmul acc s) c) (Some 0) coefs"

definition fdivn :: "fl \<Rightarrow> nat \<Rightarrow> fl" where
  "fdivn a n = fl1 (\<lambda>x. x / real n) a"

text \<open>
  The first part of \<open>_generate_paths\<close>: the tensor \<open>s\<close> of shape \<open>(nv, n)\<close> of the arc
  lengths at which the paths are evaluated, \<open>ds + state[:, 0:1]\<close>, where \<open>ds\<close> is the
  increment times \<open>1, ..., n\<close>; the increment is \<open>delta\<close>, or \<open>delta\<close> times the speed of
  the vehicle, or, with \<open>override\<close>, a fraction of what is left of the vehicle's path.
\<close>

definition path_s :: "sim_params \<Rightarrow> arc list \<Rightarrow> real \<Rightarrow> nat \<Rightarrow> bool \<Rightarrow> bool \<Rightarrow> fl list list" where
  "path_s P state delta n is_distance override =
     (let arange = map real [1..<n + 1];
          ds = (if override then
                  map (\<lambda>i. let delta' = fdivn (fmul (fdivn (fsub (smax P ! i) (fst (state ! i))) n)
                                                  (Some (real n - 1))) n
                            in map (\<lambda>k. fmul delta' (Some k)) arange) [0..<nv P]
                else if is_distance then
                  map (\<lambda>i. map (\<lambda>k. Some (delta * k)) arange) [0..<nv P]
                else
                  map (\<lambda>i. map (\<lambda>k. fmul (fmul (Some delta) (snd (state ! i))) (Some k)) arange)
                    [0..<nv P])
      in map (\<lambda>i. map (\<lambda>d. fadd d (fst (state ! i))) (ds ! i)) [0..<nv P])"

text \<open>\<open>horner_scheme(s, poly)\<close> for \<open>s\<close> of shape \<open>(nv, n)\<close>: row \<open>i\<close> with the coefficients of
  vehicle \<open>i\<close>.\<close>

definition horner_rows :: "fl list list \<Rightarrow> fl list list \<Rightarrow> fl list list" where
  "horner_rows s poly = map2 (\<lambda>row coefs. map (\<lambda>sk. horner_scheme sk coefs) row) s poly"

text \<open>\<open>x_max + (s - smax) * dx\<close>, with \<open>smax\<close>, \<open>x_max\<close> and \<open>dx\<close> of shape \<open>(nv, 1)\<close>.\<close>

definition line_rows :: "fl list list \<Rightarrow> fl list \<Rightarrow> fl list \<Rightarrow> fl list \<Rightarrow> fl list list" where
  "line_rows s smax' x_max dx =
     map2 (\<lambda>row (m, xm, d). map (\<lambda>sk. fadd xm (fmul (fsub sk m) d)) row)
       s (zip smax' (zip x_max dx))"

text \<open>\<open>x[~nni] = x_line[~nni]\<close>.\<close>

definition assign_not :: "bool list list \<Rightarrow> fl list list \<Rightarrow> fl list list \<Rightarrow> fl list list" where
  "assign_not nni x x_line =
     map2 (\<lambda>nrow (xrow, lrow). map2 (\<lambda>m (xv, lv). if \<not> m then lv else xv) nrow (zip xrow lrow))
       nni (zip x x_line)"

text \<open>
  \<open>_generate_paths\<close>: the polynomial positions at \<open>s\<close>, overwritten, where \<open>s <= smax\<close>
  does not hold, with the positions on the line through the end of the path.
\<close>

definition generate_paths ::
  "sim_params \<Rightarrow> arc list \<Rightarrow> real \<Rightarrow> nat \<Rightarrow> bool \<Rightarrow> bool \<Rightarrow> fl list list \<times> fl list list" where
  "generate_paths P state delta n is_distance override =
     (let s = path_s P state delta n is_distance override;
          nni = map2 (\<lambda>row m. map (\<lambda>sk. fle sk m) row) s (smax P);
          x = horner_rows s (xpoly P);
          y = horner_rows s (ypoly P);
          x_max = map2 horner_scheme (smax P) (xpoly P);
          y_max = map2 horner_scheme (smax P) (ypoly P);
          dx = map2 horner_scheme (smax P) (dxpoly P);
          dy = map2 horner_scheme (smax P) (dypoly P);
          x_line = line_rows s (smax P) x_max dx;
          y_line = line_rows s (smax P) y_max dy
      in (assign_not nni x x_line, assign_not nni y y_line))"

section \<open>Relative state\<close>

text \<open>The row of a vehicle after the speed is split: \<open>[x, y, vx, vy, psi, psidot]\<close>.\<close>

definition split_velocity :: "pose \<Rightarrow> fl list" where
  "split_velocity p =
     [px p, py p, fmul (vel p) (fcos (psi p)), fmul (vel p) (fsin (psi p)), psi p, psidot p]"

text \<open>
  \<open>_relative_state\<close>. The adjacency matrix of the interaction graph is a parameter; as
  a boolean mask it has to have the shape \<open>(nv, nv)\<close> of the first two dimensions of
  the tensor it indexes.
\<close>

datatype index_error = Index_error

definition relative_state ::
  "sim_params \<Rightarrow> bool list list \<Rightarrow> pose list \<Rightarrow> index_error + fl list list list" where
  "relative_state P adjacency projstate =
     (let projstate' = map split_velocity projstate;
          m = length projstate';
          relstate = map (\<lambda>pi. map (\<lambda>pj. map2 fsub pj pi) projstate') projstate';
          relstate1 = map (map (\<lambda>d. d[4 := fto_circle (d ! 4)])) relstate;
          relstate2 = map (\<lambda>i. map (\<lambda>j. if i = j then replicate 6 None else relstate1 ! i ! j)
                                   [0..<m]) [0..<m]
      in if mask_relstate P then
           (if length adjacency = m \<and> list_all (\<lambda>row. length row = m) adjacency
            then Inr (map (\<lambda>i. map (\<lambda>j. if \<not> adjacency ! i ! j then replicate 6 None
                                          else relstate2 ! i ! j) [0..<m]) [0..<m])
            else Inl Index_error)
         else Inr relstate2)"

section \<open>The simulation step\<close>

text \<open>The fields of the simulator that \<open>step\<close> changes.\<close>

record sim =
  sim_state :: "arc list"
  sim_ind :: nat
  sim_exceeded :: "bool list"
  sim_done :: bool

text \<open>What a step reports besides the new fields.\<close>

record step_info =
  action_taken :: "fl list"
  should_spawn :: "bool list"
  collision :: bool

definition reset :: "sim_params \<Rightarrow> sim" where
  "reset P = \<lparr>sim_state = state0 P, sim_ind = 0, sim_exceeded = replicate (nv P) False,
              sim_done = False\<rparr>"

text \<open>
  \<open>step\<close>, up to the collision check. The projection of the arc state to poses
  (\<open>ssdot_to_simstates\<close>) is the parameter \<open>project_state\<close>, the membership test of the
  action space and the overlap test of polygons are parameters as before. The graph,
  the observation and the reward do not touch the fields above.
\<close>

definition step ::
  "sim_params \<Rightarrow> (fl list \<Rightarrow> bool) \<Rightarrow> (arc list \<Rightarrow> pose list) \<Rightarrow> (polygon \<Rightarrow> polygon \<Rightarrow> bool) \<Rightarrow>
     sim \<Rightarrow> fl list \<Rightarrow> error + (sim \<times> step_info)" where
  "step P contains project_state intersects sim action =
     (if sim_done sim then Inl Assertion_error
      else
        let ind' = sim_ind sim + 1;
            nns = map (\<lambda>x. \<not> isnan (fst x)) (sim_state sim)
        in case next_state P contains (sim_state sim) action of
             Inl e \<Rightarrow> Inl e
           | Inr (next, action', exceeded) \<Rightarrow>
               let exceeded' = map2 (\<or>) (sim_exceeded sim) exceeded;
                   done' = list_all (\<lambda>b. b) exceeded';
                   t = minT P + dt P * real ind';
                   spawn = map2 (\<lambda>(t0i, e) n. fle t0i (Some t) \<and> \<not> e \<and> \<not> n)
                             (zip (t0 P) exceeded') nns;
                   state' = map2 (\<lambda>(x, sp) (s0i, v0i). if sp then (s0i, v0i) else x)
                              (zip next spawn) (zip (s0 P) (v0 P));
                   projstate = project_state state';
                   col = (if stop_on_collision P \<or> check_collisions_flag P
                          then check_collisions intersects projstate (lengths P) (widths P)
                          else False);
                   done'' = (if col \<and> stop_on_collision P then True else done')
               in Inr (\<lparr>sim_state = state', sim_ind = ind', sim_exceeded = exceeded',
                         sim_done = done''\<rparr>,
                       \<lparr>action_taken = action', should_spawn = spawn, collision = col\<rparr>))"

text \<open>
  An episode: the steps for a sequence of actions, stopping at the first one that
  raises; the result lists what each step returned.
\<close>

fun run ::
  "sim_params \<Rightarrow> (fl list \<Rightarrow> bool) \<Rightarrow> (arc list \<Rightarrow> pose list) \<Rightarrow> (polygon \<Rightarrow> polygon \<Rightarrow> bool) \<Rightarrow>
     sim \<Rightarrow> fl list list \<Rightarrow> error + (sim \<times> step_info) list" where
  "run P contains project_state intersects sim [] = Inr []"
| "run P contains project_state intersects sim (a # as) =
     (case step P contains project_state intersects sim a of
        Inl e \<Rightarrow> Inl e
      | Inr (sim', info) \<Rightarrow>
          (case run P contains project_state intersects sim' as of
             Inl e \<Rightarrow> Inl e
           | Inr rest \<Rightarrow> Inr ((sim', info) # rest)))"

text \<open>The shapes of the track data and of the fields: one entry for each vehicle.\<close>

definition track_shapes :: "sim_params \<Rightarrow> bool" where
  "track_shapes P =
     (length (smax P) = nv P \<and> length (t0 P) = nv P \<and> length (s0 P) = nv P \<and>
      length (v0 P) = nv P \<and> length (state0 P) = nv P \<and>
      length (xpoly P) = nv P \<and> length (ypoly P) = nv P \<and>
      length (dxpoly P) = nv P \<and> length (dypoly P) = nv P)"

definition sim_shapes :: "sim_params \<Rightarrow> sim \<Rightarrow> bool" where
  "sim_shapes P sim = (length (sim_state sim) = nv P \<and> length (sim_exceeded sim) = nv P)"

section \<open>Example data\<close>

text \<open>A one-vehicle track with a path of length 100, a time step of 1, actions in
  \<open>[-10, 10]\<close> and tensors in double precision.\<close>

definition example_params :: sim_params where
  "example_params =
     \<lparr>nv = 1, dt = 1, minT = 0, smax = [Some 100], t0 = [Some 0], s0 = [Some 0], v0 = [Some 5],
      state0 = [(None, None)], min_acc = - 10, max_acc = 10,
      xpoly = [[Some 1, Some 0]], ypoly = [[Some 0, Some 0]],
      dxpoly = [[Some 1]], dypoly = [[Some 0]],
      lengths = [Some 4], widths = [Some 2],
      stop_on_collision = False, check_collisions_flag = False, mask_relstate = False, rnd = binary64\<rparr>"

text \<open>
  Two vehicles, 4 long and 2 wide, with heading 0, in six frames: 10 apart in frames
  0, 1, 3 and 4, and 1 apart, overlapping, in frames 2 and 5.
\<close>

definition mk_pose :: "real \<Rightarrow> real \<Rightarrow> pose" where
  "mk_pose x y = \<lparr>px = Some x, py = Some y, vel = Some 0, psi = Some 0, psidot = Some 0\<rparr>"

definition frame_apart :: "pose list" where
  "frame_apart = [mk_pose 0 0, mk_pose 10 0]"

definition frame_close :: "pose list" where
  "frame_close = [mk_pose 0 0, mk_pose 1 0]"

definition example_trajectory :: "pose list list" where
  "example_trajectory =
     [frame_apart, frame_apart, frame_close, frame_apart, frame_apart, frame_close]"

text \<open>A frame of three vehicles whose middle vehicle is absent.\<close>

definition nan_pose :: pose where
  "nan_pose = \<lparr>px = None, py = None, vel = None, psi = None, psidot = None\<rparr>"

definition frame_gap :: "pose list" where
  "frame_gap = [mk_pose 0 0, nan_pose, mk_pose 1 0]"

text \<open>
  Two vehicles on straight paths of length 100 along the x axis, and the projection
  of their arc states: \<open>x = s\<close>, \<open>y = 0\<close>, heading 0, with NaN for an absent vehicle.
\<close>

definition example_params2 :: sim_params where
  "example_params2 =
     \<lparr>nv = 2, dt = 1, minT = 0, smax = [Some 100, Some 100], t0 = [Some 0, Some 0],
      s0 = [Some 0, Some 0], v0 = [Some 5, Some 5],
      state0 = [(None, None), (None, None)], min_acc = - 10, max_acc = 10,
      xpoly = [[Some 1, Some 0], [Some 1, Some 0]], ypoly = [[Some 0, Some 0], [Some 0, Some 0]],
      dxpoly = [[Some 1], [Some 1]], dypoly = [[Some 0], [Some 0]],
      lengths = [Some 4, Some 4], widths = [Some 2, Some 2],
      stop_on_collision = False, check_collisions_flag = False, mask_relstate = False, rnd = binary64\<rparr>"

definition straight_project :: "arc list \<Rightarrow> pose list" where
  "straight_project st =
     map (\<lambda>(s, sd). \<lparr>px = s, py = fmul s (Some 0), vel = sd, psi = fmul s (Some 0),
                       psidot = fmul s (Some 0)\<rparr>) st"

definition example_sim0 :: sim where
  "example_sim0 = \<lparr>sim_state = [(Some 99, Some 5), (Some 0, Some 1)], sim_ind = 0,
                    sim_exceeded = [False, False], sim_done = False\<rparr>"

definition example_sim1 :: sim where
  "example_sim1 = \<lparr>sim_state = [(None, None), (Some 1, Some 1)], sim_ind = 1,
                    sim_exceeded = [True, False], sim_done = False\<rparr>"

definition example_sim2 :: sim where
  "example_sim2 = \<lparr>sim_state = [(None, None), (Some 2, Some 1)], sim_ind = 2,
                    sim_exceeded = [True, False], sim_done = False\<rparr>"

definition example_info :: step_info where
  "example_info = \<lparr>action_taken = [Some 0, Some 0], should_spawn = [False, False],
                    collision = False\<rparr>"

section \<open>Facts about rounding\<close>

text \<open>A number with a significand of at most \<open>p\<close> bits is not changed by rounding; halfway
  between two neighbours the even significand wins.\<close>

lemma round_even_of_int: "round_even (of_int k) = k"
  by (simp add: round_even_def)

lemma fl_round_exact:
  assumes "x = of_int m * 2 powr of_int j" and "\<bar>m\<bar> < 2 ^ p"
  shows "fl_round p x = x"
proof (cases "x = 0")
  case True
  then show ?thesis by (simp add: fl_round_def)
next
  case False
  define e where "e = \<lfloor>log 2 \<bar>x\<bar>\<rfloor>"
  from False have pos: "0 < \<bar>x\<bar>" by simp
  from floor_log_eq_powr_iff [OF pos, of 2 e] have b: "2 powr of_int e \<le> \<bar>x\<bar>"
    by (simp add: e_def)
  have "\<bar>x\<bar> = of_int \<bar>m\<bar> * 2 powr of_int j"
    by (simp add: assms(1) abs_mult)
  also have "\<dots> < 2 ^ p * 2 powr of_int j"
  proof -
    from assms(2) have "(of_int \<bar>m\<bar> :: real) < of_int (2 ^ p)" by (simp only: of_int_less_iff)
    then have "(of_int \<bar>m\<bar> :: real) < 2 ^ p" by simp
    then show ?thesis by (simp add: mult_strict_right_mono)
  qed
  also have "\<dots> = 2 powr (real p + of_int j)"
    by (simp add: powr_add powr_realpow)
  finally have "\<bar>x\<bar> < 2 powr (real p + of_int j)" .
  with b have "2 powr of_int e < 2 powr (real p + of_int j)" by (rule le_less_trans)
  then have "real_of_int e < real p + of_int j" by simp
  then have "e < int p + j" by linarith
  then have d: "0 \<le> j - e + int p - 1" by simp
  define n where "n = nat (j - e + int p - 1)"
  from d have n: "int n = j - e + int p - 1" by (simp add: n_def)
  define u :: real where "u = 2 powr (of_int e - real p + 1)"
  have upos: "0 < u" by (simp add: u_def)
  have "2 powr of_int j = 2 powr (real n) * u"
  proof -
    have "of_int j = real n + (of_int e - real p + 1)"
      using n by linarith
    then show ?thesis by (simp add: u_def powr_add [symmetric])
  qed
  then have "x = of_int m * 2 ^ n * u"
    by (simp add: assms(1) powr_realpow)
  then have q: "x / u = of_int (m * 2 ^ n)" using upos by simp
  have "fl_round p x = of_int (round_even (x / u)) * u"
    using False by (simp add: fl_round_def Let_def e_def u_def)
  also have "\<dots> = of_int (m * 2 ^ n) * u"
    unfolding q round_even_of_int ..
  also have "\<dots> = x" using q upos by (simp add: field_simps)
  finally show ?thesis .
qed


lemma binary64_int: "\<bar>m\<bar> < 2 ^ 53 \<Longrightarrow> binary64 (of_int m) = of_int m"
  unfolding binary64_def by (rule fl_round_exact [where m = m and j = 0]) simp_all

lemma binary64_half: "\<bar>m\<bar> < 2 ^ 53 \<Longrightarrow> binary64 (of_int m / 2) = of_int m / 2"
  unfolding binary64_def by (rule fl_round_exact [where m = m and j = "- 1"]) (simp_all add: powr_minus)

lemma binary64_values:
  "binary64 0 = 0" "binary64 1 = 1" "binary64 2 = 2" "binary64 4 = 4" "binary64 5 = 5"
  "binary64 9 = 9" "binary64 10 = 10" "binary64 99 = 99" "binary64 104 = 104"
  "binary64 (- 1) = - 1" "binary64 (- 8) = - 8" "binary64 (- 10) = - 10"
  "binary64 (1 / 2) = 1 / 2" "binary64 (9 / 2) = 9 / 2" "binary64 (207 / 2) = 207 / 2"
  using binary64_int [of 0] binary64_int [of 1] binary64_int [of 2] binary64_int [of 4]
    binary64_int [of 5] binary64_int [of 9] binary64_int [of 10] binary64_int [of 99]
    binary64_int [of 104] binary64_int [of "- 1"] binary64_int [of "- 8"] binary64_int [of "- 10"]
    binary64_half [of 1] binary64_half [of 9] binary64_half [of 207]
  by simp_all

lemma binary64_pow53: "binary64 (2 ^ 53) = 2 ^ 53"
  unfolding binary64_def by (rule fl_round_exact [where m = 1 and j = 53]) simp_all




lemma binary64_pow53_numeral: "binary64 9007199254740992 = 9007199254740992"
  using binary64_pow53 by simp

section \<open>Facts about heading wrapping\<close>

lemma rmod_range:
  assumes "0 < m"
  shows "0 \<le> rmod x m" and "rmod x m < m"
proof -
  have a: "of_int \<lfloor>x / m\<rfloor> \<le> x / m" by (rule of_int_floor_le)
  have b: "x / m < of_int \<lfloor>x / m\<rfloor> + 1" by linarith
  from a have "of_int \<lfloor>x / m\<rfloor> * m \<le> x"
    by (simp only: pos_le_divide_eq [OF assms])
  then show "0 \<le> rmod x m"
    by (simp add: rmod_def mult.commute)
  from b have "x < (of_int \<lfloor>x / m\<rfloor> + 1) * m"
    by (simp only: pos_divide_less_eq [OF assms])
  then show "rmod x m < m"
    by (simp add: rmod_def algebra_simps)
qed

lemma rmod_small:
  assumes "0 \<le> x" and "x < m"
  shows "rmod x m = x"
proof -
  from assms have m: "0 < m" by simp
  from assms m have "0 \<le> x / m" and "x / m < 1" by simp_all
  then have "\<lfloor>x / m\<rfloor> = 0" by (simp add: floor_eq_iff)
  then show ?thesis by (simp add: rmod_def)
qed

lemma to_circle_range: "- pi \<le> to_circle \<psi> \<and> to_circle \<psi> < pi"
proof -
  have m: "0 < 2 * pi" by simp
  from rmod_range [OF m, of "\<psi> + pi"] show ?thesis
    by (simp add: to_circle_def)
qed

lemma to_circle_fixed:
  assumes "- pi \<le> \<psi>" and "\<psi> < pi"
  shows "to_circle \<psi> = \<psi>"
proof -
  from assms have "0 \<le> \<psi> + pi" and "\<psi> + pi < 2 * pi" by simp_all
  then have "rmod (\<psi> + pi) (2 * pi) = \<psi> + pi" by (rule rmod_small)
  then show ?thesis by (simp add: to_circle_def)
qed

lemma to_circle_pi: "to_circle pi = - pi"
proof -
  have "(pi + pi) / (2 * pi) = 1" by simp
  then have "\<lfloor>(pi + pi) / (2 * pi)\<rfloor> = 1" by simp
  then show ?thesis by (simp add: to_circle_def rmod_def)
qed

text \<open>
  C2, as stated: every wrapped heading lies in the half-open interval \<open>(-\<pi>, \<pi>]\<close>.
  This fails at \<open>\<psi> = \<pi>\<close>, whose wrapped value is \<open>-\<pi>\<close>.
\<close>

theorem C2_to_circle_counterexample:
  "\<not> (- pi < to_circle pi \<and> to_circle pi \<le> pi)"
  by (simp add: to_circle_pi)

text \<open>
  C2, amended: for every real heading \<open>\<psi>\<close> the wrapped value lies in \<open>[-\<pi>, \<pi>)\<close>, the
  interval named by the comment in \<open>_project_state\<close>, and wrapping is idempotent.
\<close>

theorem C2_to_circle_range_idem:
  "- pi \<le> to_circle \<psi> \<and> to_circle \<psi> < pi \<and> to_circle (to_circle \<psi>) = to_circle \<psi>"
  using to_circle_range [of \<psi>] by (simp add: to_circle_fixed)

section \<open>Facts about the state integrator\<close>

lemma euler_step_length:
  "length (fst (euler_step P state action)) = min (min (length state) (length action)) (length (smax P))"
  "length (snd (euler_step P state action)) = min (min (length state) (length action)) (length (smax P))"
  by (simp_all add: euler_step_def Let_def)

lemma euler_step_nth:
  assumes "i < length state" "i < length action" "i < length (smax P)"
  shows "snd (euler_step P state action) ! i =
           fgt (radd (rnd P) (fst (state ! i)) (rmul (rnd P) (Some (rnd P (0.5 * dt P)))
                  (radd (rnd P)
                     (clamp_nonneg (radd (rnd P) (snd (state ! i)) (rmul (rnd P) (action ! i) (Some (rnd P (dt P))))))
                     (snd (state ! i)))))
               (smax P ! i)"
    and "fst (euler_step P state action) ! i =
           (if snd (euler_step P state action) ! i then (None, None)
            else (radd (rnd P) (fst (state ! i)) (rmul (rnd P) (Some (rnd P (0.5 * dt P)))
                  (radd (rnd P)
                     (clamp_nonneg (radd (rnd P) (snd (state ! i)) (rmul (rnd P) (action ! i) (Some (rnd P (dt P))))))
                     (snd (state ! i)))),
                  clamp_nonneg (radd (rnd P) (snd (state ! i)) (rmul (rnd P) (action ! i) (Some (rnd P (dt P)))))))"
  using assms by (simp_all add: euler_step_def Let_def)

lemma clamp_nonneg_cases: "clamp_nonneg a = None \<or> (\<exists>r. clamp_nonneg a = Some r \<and> 0 \<le> r)"
  by (cases a) (simp_all add: clamp_nonneg_def fl1_def)


lemma clamp_nan: "clamp lo hi None = None"
  by (simp add: clamp_def fl1_def)

lemma next_state_raises_iff:
  assumes "length action = length state"
  shows "next_state P contains state action = Inl Nan_action \<longleftrightarrow>
         (\<exists>i<length state. \<not> isnan (fst (state ! i)) \<and> isnan (action ! i))"
proof -
  have "list_ex (\<lambda>b. b) (map2 (\<lambda>s a. s \<and> \<not> a) (map (\<lambda>x. \<not> isnan (fst x)) state) (map (\<lambda>a. \<not> isnan a) action))
        \<longleftrightarrow> (\<exists>i<length state. \<not> isnan (fst (state ! i)) \<and> isnan (action ! i))"
    using assms by (auto simp: list_ex_length)
  then show ?thesis
    by (simp add: next_state_def Let_def split: prod.splits)
qed

lemma next_state_Inl: "next_state P contains state action = Inl e \<Longrightarrow> e = Nan_action"
  by (simp add: next_state_def Let_def split: prod.splits if_splits)

lemma next_state_Inr:
  assumes "next_state P contains state action = Inr (nxt, act, exc)"
  shows "(nxt, exc) = euler_step P state act"
    and "act = map (\<lambda>a. if isnan a then Some 0 else a) action \<or>
         act = map (clamp (min_acc P) (max_acc P)) (map (\<lambda>a. if isnan a then Some 0 else a) action)"
proof -
  define a1 where "a1 = map (\<lambda>a. if isnan a then Some 0 else a) action"
  define a2 where "a2 = (if \<not> contains a1 then map (clamp (min_acc P) (max_acc P)) a1 else a1)"
  define b where "b = list_ex (\<lambda>b. b) (map2 (\<lambda>s a. s \<and> \<not> a) (map (\<lambda>x. \<not> isnan (fst x)) state) (map (\<lambda>a. \<not> isnan a) action))"
  have unf: "next_state P contains state action =
     (if b then Inl Nan_action else Inr (fst (euler_step P state a2), a2, snd (euler_step P state a2)))"
    unfolding next_state_def Let_def case_prod_beta a1_def a2_def b_def by (rule refl)
  from assms have "\<not> b" unfolding unf by (cases b) simp_all
  with assms have "(fst (euler_step P state a2), a2, snd (euler_step P state a2)) = (nxt, act, exc)"
    unfolding unf by auto
  then have a: "act = a2" and n: "nxt = fst (euler_step P state a2)" and x: "exc = snd (euler_step P state a2)"
    by auto
  show "(nxt, exc) = euler_step P state act" by (simp add: a n x)
  show "act = map (\<lambda>a. if isnan a then Some 0 else a) action \<or>
         act = map (clamp (min_acc P) (max_acc P)) (map (\<lambda>a. if isnan a then Some 0 else a) action)"
    unfolding a a2_def a1_def by (cases "contains (map (\<lambda>a. if isnan a then Some 0 else a) action)") simp_all
qed





lemma euler_step_speed:
  assumes "i < length (fst (euler_step P state action))"
  shows "snd (fst (euler_step P state action) ! i) = None \<or>
         (\<exists>r. snd (fst (euler_step P state action) ! i) = Some r \<and> 0 \<le> r)"
proof -
  from assms have i: "i < length state" "i < length action" "i < length (smax P)"
    by (simp_all add: euler_step_length)
  show ?thesis
    unfolding euler_step_nth(2) [OF i]
    using clamp_nonneg_cases [of "radd (rnd P) (snd (state ! i)) (rmul (rnd P) (action ! i) (Some (rnd P (dt P))))"]
    by auto
qed

text \<open>
  C4, as stated: after every step every vehicle's arc speed is at least zero. This
  fails for a vehicle that leaves its track in the step: its row is overwritten with
  NaN, and NaN is not at least zero (\<open>s = 99\<close>, \<open>sd = 5\<close>, action \<open>-1\<close>, \<open>smax = 100\<close>:
  \<open>s' = 103.5\<close>).
\<close>

theorem C4_speed_counterexample:
  "next_state example_params (box_contains (- 10) 10) [(Some 99, Some 5)] [Some (- 1)]
     = Inr ([(None, None)], [Some (- 1)], [True])
   \<and> \<not> fle (Some 0) (snd ((None, None) :: arc))"
  by (simp add: next_state_def euler_step_def example_params_def box_contains_def isnan_def
      fle_def fgt_def radd_def rmul_def fl2_def clamp_nonneg_def fl1_def Let_def binary64_values)

text \<open>
  C4, amended: after every step that returns, single or batched, for every input state
  and every requested acceleration, every vehicle's arc speed is either NaN (the
  vehicle is absent or has left its track) or at least zero.
\<close>

theorem C4_speed_nonneg_or_nan:
  "(next_state P contains state action = Inr (nxt, act, exc) \<and> i < length nxt \<longrightarrow>
      snd (nxt ! i) = None \<or> (\<exists>r. snd (nxt ! i) = Some r \<and> 0 \<le> r)) \<and>
   (b < length (next_state_batch P states actions) \<and>
    i < length (fst (next_state_batch P states actions ! b)) \<longrightarrow>
      snd (fst (next_state_batch P states actions ! b) ! i) = None \<or>
      (\<exists>r. snd (fst (next_state_batch P states actions ! b) ! i) = Some r \<and> 0 \<le> r))"
proof (intro conjI impI)
  assume a: "next_state P contains state action = Inr (nxt, act, exc) \<and> i < length nxt"
  then have "nxt = fst (euler_step P state act)"
    using next_state_Inr(1) [of P contains state action nxt act exc] by (metis fst_conv)
  with a show "snd (nxt ! i) = None \<or> (\<exists>r. snd (nxt ! i) = Some r \<and> 0 \<le> r)"
    using euler_step_speed [of i P state act] by simp
next
  assume a: "b < length (next_state_batch P states actions) \<and>
    i < length (fst (next_state_batch P states actions ! b))"
  then have b: "b < length states" "b < length actions"
    by (simp_all add: next_state_batch_def)
  then have "fst (next_state_batch P states actions ! b) =
      fst (euler_step P (states ! b) (map (clamp (min_acc P) (max_acc P)) (actions ! b)))"
    by (simp add: next_state_batch_def next_state_batch1_def Let_def case_prod_beta)
  with a show "snd (fst (next_state_batch P states actions ! b) ! i) = None \<or>
      (\<exists>r. snd (fst (next_state_batch P states actions ! b) ! i) = Some r \<and> 0 \<le> r)"
    using euler_step_speed [of i P "states ! b" "map (clamp (min_acc P) (max_acc P)) (actions ! b)"]
    by simp
qed

theorem C4_speed_nonneg_or_nan_witness:
  "next_state example_params (box_contains (- 10) 10) [(Some 4, Some 2)] [Some (- 50)]
     = Inr ([(Some 5, Some 0)], [Some (- 10)], [False]) \<and>
   snd ([(Some 5, Some 0) :: arc] ! 0) = Some 0 \<and>
   snd (fst (next_state_batch example_params [[(Some 1, Some 2)]] [[Some (- 20)]] ! 0) ! 0) = Some 0"
  using C4_speed_nonneg_or_nan [of example_params "box_contains (- 10) 10" "[(Some 4, Some 2)]" "[Some (- 50)]"
      "[(Some 5, Some 0)]" "[Some (- 10)]" "[False]" 0 0 "[[(Some 1, Some 2)]]" "[[Some (- 20)]]"]
  by (simp add: next_state_def next_state_batch_def next_state_batch1_def euler_step_def example_params_def
      box_contains_def isnan_def clamp_def
      fle_def fgt_def radd_def rmul_def fl2_def clamp_nonneg_def fl1_def Let_def binary64_values)


lemma euler_step_nan_action:
  assumes "i < length state" "i < length action" "i < length (smax P)" "action ! i = None"
  shows "fst (euler_step P state action) ! i = (None, None)"
    and "\<not> snd (euler_step P state action) ! i"
proof -
  show e: "\<not> snd (euler_step P state action) ! i"
    unfolding euler_step_nth(1) [OF assms(1-3)] using assms(4)
    by (simp add: fgt_def radd_def rmul_def fl2_def clamp_nonneg_def fl1_def split: option.splits)
  show "fst (euler_step P state action) ! i = (None, None)"
    unfolding euler_step_nth(2) [OF assms(1-3)] using assms(4)
    by (simp add: radd_def rmul_def fl2_def clamp_nonneg_def fl1_def split: option.splits)
qed

text \<open>
  C5: \<open>_next_state\<close> raises if and only if some vehicle with a defined arc position has
  a NaN action. \<open>_next_state_batch\<close> has no such check and no error result: a NaN
  action stays NaN under the clamp and makes the vehicle's next arc state NaN, with the
  exceeded flag clear.
\<close>

theorem C5_nan_action_check:
  "(length action = length state \<longrightarrow>
      ((\<exists>e. next_state P contains state action = Inl e) \<longleftrightarrow>
       (\<exists>j<length state. \<not> isnan (fst (state ! j)) \<and> isnan (action ! j)))) \<and>
   (b < length states \<and> length actions = length states \<and> i < length (states ! b) \<and>
    length (actions ! b) = length (states ! b) \<and> length (smax P) = length (states ! b) \<and>
    isnan (actions ! b ! i) \<longrightarrow>
      (\<exists>nxt act exc. next_state_batch P states actions ! b = (nxt, act, exc) \<and>
         nxt ! i = (None, None) \<and> isnan (act ! i) \<and> \<not> exc ! i))"
proof (intro conjI impI)
  assume "length action = length state"
  then show "(\<exists>e. next_state P contains state action = Inl e) \<longleftrightarrow>
       (\<exists>j<length state. \<not> isnan (fst (state ! j)) \<and> isnan (action ! j))"
    using next_state_raises_iff [of action state P contains] next_state_Inl [of P contains state action]
    by blast
next
  assume a: "b < length states \<and> length actions = length states \<and> i < length (states ! b) \<and>
    length (actions ! b) = length (states ! b) \<and> length (smax P) = length (states ! b) \<and>
    isnan (actions ! b ! i)"
  define act where "act = map (clamp (min_acc P) (max_acc P)) (actions ! b)"
  from a have r: "next_state_batch P states actions ! b =
      (fst (euler_step P (states ! b) act), act, snd (euler_step P (states ! b) act))"
    by (simp add: next_state_batch_def next_state_batch1_def Let_def case_prod_beta act_def)
  from a have n: "act ! i = None"
    by (simp add: act_def isnan_def clamp_nan)
  from a have i: "i < length (states ! b)" "i < length act" "i < length (smax P)"
    by (simp_all add: act_def)
  from euler_step_nan_action [OF i n] n r
  show "\<exists>nxt act exc. next_state_batch P states actions ! b = (nxt, act, exc) \<and>
         nxt ! i = (None, None) \<and> isnan (act ! i) \<and> \<not> exc ! i"
    by (simp add: isnan_def)
qed

theorem C5_nan_action_check_witness:
  "(\<exists>e. next_state example_params (box_contains (- 10) 10) [(Some 1, Some 2)] [None] = Inl e) \<and>
   (\<exists>nxt act exc. next_state_batch example_params [[(Some 1, Some 2)]] [[None]] ! 0 = (nxt, act, exc) \<and>
         nxt ! 0 = (None, None) \<and> isnan (act ! 0) \<and> \<not> exc ! 0)"
  using C5_nan_action_check [of "[None]" "[(Some 1, Some 2)]" example_params "box_contains (- 10) 10"
      0 "[[(Some 1, Some 2)]]" "[[None]]" 0]
  by (simp add: example_params_def isnan_def)

section \<open>Facts about collision detection\<close>

lemma filter_upt_Cons:
  "filter (\<lambda>i. (b # bs) ! i) [0..<Suc (length bs)] =
     (if b then [0] else []) @ map Suc (filter (\<lambda>i. bs ! i) [0..<length bs])"
proof -
  have "[0..<Suc (length bs)] = 0 # map Suc [0..<length bs]"
    by (simp add: upt_conv_Cons map_Suc_upt del: upt_Suc)
  then show ?thesis
    by (simp add: filter_map comp_def del: upt_Suc)
qed

lemma mask_nth:
  "length xs = length bs \<Longrightarrow> mask xs bs = map (\<lambda>i. xs ! i) (filter (\<lambda>i. bs ! i) [0..<length bs])"
proof (induction xs bs rule: list_induct2)
  case Nil
  then show ?case by (simp add: mask_def)
next
  case (Cons x xs b bs)
  have "mask (x # xs) (b # bs) = (if b then [x] else []) @ mask xs bs"
    by (simp add: mask_def)
  also have "\<dots> = (if b then [x] else []) @ map (\<lambda>i. xs ! i) (filter (\<lambda>i. bs ! i) [0..<length bs])"
    using Cons.IH by simp
  also have "\<dots> = map (\<lambda>i. (x # xs) ! i) (filter (\<lambda>i. (b # bs) ! i) [0..<Suc (length bs)])"
    unfolding filter_upt_Cons by (simp add: comp_def)
  finally show ?case by simp
qed

lemma states_to_polygons_eq:
  assumes "length lens = length x" and "length wids = length x"
  shows "states_to_polygons x lens wids =
           (map (vehicle_polygon x lens wids) (active_inds x), active_inds x)"
proof -
  define nni where "nni = map (\<lambda>p. \<not> isnan (px p)) x"
  have len: "length nni = length x" by (simp add: nni_def)
  have inds: "filter (\<lambda>i. nni ! i) [0..<length nni] = active_inds x"
    unfolding active_inds_def len by (rule filter_cong) (simp_all add: nni_def)
  have m1: "mask x nni = map (\<lambda>i. x ! i) (active_inds x)"
    using mask_nth [of x nni] len inds by simp
  have m2: "mask lens nni = map (\<lambda>i. lens ! i) (active_inds x)"
    using mask_nth [of lens nni] len inds assms by simp
  have m3: "mask wids nni = map (\<lambda>i. wids ! i) (active_inds x)"
    using mask_nth [of wids nni] len inds assms by simp
  have "map (\<lambda>(x', li, wi). state_to_polygon x' li wi)
          (zip (mask x nni) (zip (mask lens nni) (mask wids nni)))
        = map (vehicle_polygon x lens wids) (active_inds x)"
    unfolding m1 m2 m3 by (simp add: zip_map_map map_eq_conv vehicle_polygon_def zip_same_conv_map comp_def)
  then show ?thesis
    unfolding states_to_polygons_def Let_def nni_def [symmetric] inds by simp
qed


lemma dims_zeros: "dims (zeros n n) n"
  by (simp add: dims_def zeros_def)

lemma mget_zeros: "a < n \<Longrightarrow> b < n \<Longrightarrow> mget (zeros n n) a b = 0"
  by (simp add: mget_def zeros_def)

lemma dims_mset: "dims c n \<Longrightarrow> dims (mset i j v c) n"
  by (cases "i < length c") (auto simp: dims_def mset_def nth_list_update)

lemma mget_mset:
  "dims c n \<Longrightarrow> i < n \<Longrightarrow> j < n \<Longrightarrow>
     mget (mset i j v c) a b = (if a = i \<and> b = j then v else mget c a b)"
  by (auto simp: dims_def mset_def mget_def nth_list_update)

lemma inner_loop:
  assumes "dims c n" and "k < n" and "\<forall>j\<in>set js. f j < n"
  shows "dims (foldl (\<lambda>c j. if P j then mset (f j) k 1 (mset k (f j) 1 c) else c) c js) n \<and>
         mget (foldl (\<lambda>c j. if P j then mset (f j) k 1 (mset k (f j) 1 c) else c) c js) a b =
           (if \<exists>j\<in>set js. P j \<and> ((a = k \<and> b = f j) \<or> (a = f j \<and> b = k)) then 1 else mget c a b)"
  using assms
proof (induction js arbitrary: c)
  case Nil
  then show ?case by simp
next
  case (Cons j js)
  let ?c' = "if P j then mset (f j) k 1 (mset k (f j) 1 c) else c"
  from Cons.prems have d: "dims ?c' n" by (simp add: dims_mset)
  from Cons.prems have fj: "f j < n" by simp
  have g: "mget ?c' a b = (if P j \<and> ((a = k \<and> b = f j) \<or> (a = f j \<and> b = k)) then 1 else mget c a b)"
    using Cons.prems(1,2) fj
    by (simp add: mget_mset [where n = n] dims_mset) blast
  from Cons.prems have js: "\<forall>j\<in>set js. f j < n" by simp
  from Cons.IH [OF d Cons.prems(2) js] g show ?case
    by auto
qed


lemma outer_loop:
  assumes "dims c n" and "\<forall>i\<in>set is. f i < n \<and> (\<forall>j<i. f j < n)"
  shows "dims (foldl (\<lambda>c i. foldl (\<lambda>c j. if P i j then mset (f j) (f i) 1 (mset (f i) (f j) 1 c) else c)
                               c [0..<i]) c is) n \<and>
         mget (foldl (\<lambda>c i. foldl (\<lambda>c j. if P i j then mset (f j) (f i) 1 (mset (f i) (f j) 1 c) else c)
                               c [0..<i]) c is) a b =
           (if \<exists>i\<in>set is. \<exists>j<i. P i j \<and> ((a = f i \<and> b = f j) \<or> (a = f j \<and> b = f i))
            then 1 else mget c a b)"
  using assms
proof (induction "is" arbitrary: c)
  case Nil
  then show ?case by simp
next
  case (Cons i "is")
  let ?c' = "foldl (\<lambda>c j. if P i j then mset (f j) (f i) 1 (mset (f i) (f j) 1 c) else c) c [0..<i]"
  from Cons.prems have fi: "f i < n" and fj: "\<forall>j\<in>set [0..<i]. f j < n" by simp_all
  note inner = inner_loop [OF Cons.prems(1) fi fj, of "P i" a b]
  from inner have d: "dims ?c' n" by (rule conjunct1)
  have q: "(\<exists>j\<in>set [0..<i]. P i j \<and> ((a = f i \<and> b = f j) \<or> (a = f j \<and> b = f i)))
     \<longleftrightarrow> (\<exists>j<i. P i j \<and> ((a = f i \<and> b = f j) \<or> (a = f j \<and> b = f i)))"
    by auto
  from inner have g: "mget ?c' a b =
      (if \<exists>j<i. P i j \<and> ((a = f i \<and> b = f j) \<or> (a = f j \<and> b = f i)) then 1 else mget c a b)"
    unfolding q by (rule conjunct2)
  from Cons.prems have r: "\<forall>i\<in>set is. f i < n \<and> (\<forall>j<i. f j < n)" by simp
  from Cons.IH [OF d r] g show ?case by auto
qed

lemma fill_pairs_entry:
  assumes "dims c n" and "\<forall>i<length polys_t. nni_t ! i < n"
  shows "dims (fill_pairs intersects polys_t nni_t c) n"
    and "mget (fill_pairs intersects polys_t nni_t c) a b =
           (if \<exists>i<length polys_t. \<exists>j<i. intersects (polys_t ! i) (polys_t ! j) \<and>
                  ((a = nni_t ! i \<and> b = nni_t ! j) \<or> (a = nni_t ! j \<and> b = nni_t ! i))
            then 1 else mget c a b)"
proof -
  from assms(2) have r: "\<forall>i\<in>set [1..<length polys_t]. nni_t ! i < n \<and> (\<forall>j<i. nni_t ! j < n)"
    by auto
  note o = outer_loop [OF assms(1) r, of "\<lambda>i j. intersects (polys_t ! i) (polys_t ! j)" a b]
  from o show "dims (fill_pairs intersects polys_t nni_t c) n"
    unfolding fill_pairs_def by simp
  have e: "(\<exists>i\<in>set [1..<length polys_t]. \<exists>j<i. intersects (polys_t ! i) (polys_t ! j) \<and>
                  ((a = nni_t ! i \<and> b = nni_t ! j) \<or> (a = nni_t ! j \<and> b = nni_t ! i)))
       \<longleftrightarrow> (\<exists>i<length polys_t. \<exists>j<i. intersects (polys_t ! i) (polys_t ! j) \<and>
                  ((a = nni_t ! i \<and> b = nni_t ! j) \<or> (a = nni_t ! j \<and> b = nni_t ! i)))"
    (is "?L \<longleftrightarrow> ?R")
  proof
    assume ?L then show ?R by auto
  next
    assume ?R
    then obtain i j where "i < length polys_t" "j < i" "intersects (polys_t ! i) (polys_t ! j) \<and>
                  ((a = nni_t ! i \<and> b = nni_t ! j) \<or> (a = nni_t ! j \<and> b = nni_t ! i))"
      by blast
    moreover from this have "i \<in> set [1..<length polys_t]" by simp
    ultimately show ?L by blast
  qed
  from o e show "mget (fill_pairs intersects polys_t nni_t c) a b =
           (if \<exists>i<length polys_t. \<exists>j<i. intersects (polys_t ! i) (polys_t ! j) \<and>
                  ((a = nni_t ! i \<and> b = nni_t ! j) \<or> (a = nni_t ! j \<and> b = nni_t ! i))
            then 1 else mget c a b)"
    unfolding fill_pairs_def by simp
qed


lemma active_inds_sorted: "sorted_wrt (<) (active_inds x)"
  unfolding active_inds_def by (rule sorted_wrt_filter) (rule sorted_wrt_upt)

lemma active_inds_set: "set (active_inds x) = {i. i < length x \<and> \<not> isnan (px (x ! i))}"
  by (auto simp: active_inds_def)

lemma active_inds_nth_less:
  "i < length (active_inds x) \<Longrightarrow> j < i \<Longrightarrow> active_inds x ! j < active_inds x ! i"
  using active_inds_sorted [of x] by (simp add: sorted_wrt_nth_less)

lemma active_inds_nth_mem:
  "i < length (active_inds x) \<Longrightarrow> active_inds x ! i < length x \<and> \<not> isnan (px (x ! (active_inds x ! i)))"
  using active_inds_set [of x] nth_mem [of i "active_inds x"] by blast

lemma active_inds_pair:
  assumes "lo < hi" and "hi < length x" and "\<not> isnan (px (x ! lo))" and "\<not> isnan (px (x ! hi))"
  shows "\<exists>i<length (active_inds x). \<exists>j<i. active_inds x ! i = hi \<and> active_inds x ! j = lo"
proof -
  from assms have "hi \<in> set (active_inds x)" and "lo \<in> set (active_inds x)"
    by (simp_all add: active_inds_set)
  then obtain i j where i: "i < length (active_inds x)" "active_inds x ! i = hi"
    and j: "j < length (active_inds x)" "active_inds x ! j = lo"
    by (auto simp: in_set_conv_nth)
  have "j < i"
  proof (rule ccontr)
    assume "\<not> j < i"
    then have "i = j \<or> i < j" by auto
    then show False
    proof
      assume "i = j" with i j assms(1) show False by simp
    next
      assume "i < j"
      from active_inds_nth_less [OF j(1) this] i j assms(1) show False by simp
    qed
  qed
  with i j show ?thesis by blast
qed

lemma compact_pairs_iff:
  assumes "a < length x" and "b < length x"
  shows "(\<exists>i<length (active_inds x). \<exists>j<i.
            intersects (map (vehicle_polygon x lens wids) (active_inds x) ! i)
                       (map (vehicle_polygon x lens wids) (active_inds x) ! j) \<and>
            ((a = active_inds x ! i \<and> b = active_inds x ! j) \<or>
             (a = active_inds x ! j \<and> b = active_inds x ! i)))
         \<longleftrightarrow> pair_collides intersects x lens wids a b"
    (is "?L \<longleftrightarrow> ?R")
proof
  assume ?L
  then obtain i j where i: "i < length (active_inds x)" and j: "j < i"
    and t: "intersects (vehicle_polygon x lens wids (active_inds x ! i))
                       (vehicle_polygon x lens wids (active_inds x ! j))"
    and c: "(a = active_inds x ! i \<and> b = active_inds x ! j) \<or>
            (a = active_inds x ! j \<and> b = active_inds x ! i)"
    by auto
  from i j have j': "j < length (active_inds x)" by simp
  note lt = active_inds_nth_less [OF i j]
  note mi = active_inds_nth_mem [OF i] and mj = active_inds_nth_mem [OF j']
  from c show ?R
  proof
    assume "a = active_inds x ! i \<and> b = active_inds x ! j"
    with lt mi mj t show ?R by (simp add: pair_collides_def max_def min_def)
  next
    assume "a = active_inds x ! j \<and> b = active_inds x ! i"
    with lt mi mj t show ?R by (simp add: pair_collides_def max_def min_def)
  qed
next
  assume r: ?R
  define hi where "hi = max a b"
  define lo where "lo = min a b"
  from r have ne: "a \<noteq> b" and na: "\<not> isnan (px (x ! a))" and nb: "\<not> isnan (px (x ! b))"
    and t: "intersects (vehicle_polygon x lens wids hi) (vehicle_polygon x lens wids lo)"
    by (simp_all add: pair_collides_def hi_def lo_def)
  from ne have "lo < hi" by (auto simp: hi_def lo_def)
  moreover from assms have "hi < length x" by (simp add: hi_def)
  moreover from na nb have "\<not> isnan (px (x ! lo))" and "\<not> isnan (px (x ! hi))"
    by (auto simp: hi_def lo_def max_def min_def)
  ultimately obtain i j where i: "i < length (active_inds x)" and j: "j < i"
    and e: "active_inds x ! i = hi" "active_inds x ! j = lo"
    using active_inds_pair [of lo hi x] by blast
  from ne have "(a = hi \<and> b = lo) \<or> (a = lo \<and> b = hi)"
    by (auto simp: hi_def lo_def max_def min_def)
  with i j e t show ?L
    by (intro exI [of _ i] conjI exI [of _ j]) auto
qed

lemma collision_matrix_entry:
  assumes "length lens = length x" and "length wids = length x"
  shows "dims (collision_matrix intersects x lens wids) (length x)"
    and "a < length x \<Longrightarrow> b < length x \<Longrightarrow>
         mget (collision_matrix intersects x lens wids) a b =
           (if pair_collides intersects x lens wids a b then 1 else 0)"
proof -
  let ?n = "length x"
  let ?polys = "map (vehicle_polygon x lens wids) (active_inds x)"
  have cm: "collision_matrix intersects x lens wids = fill_pairs intersects ?polys (active_inds x) (zeros ?n ?n)"
    by (simp add: collision_matrix_def Let_def states_to_polygons_eq [OF assms] assms(1))
  have r: "\<forall>i<length ?polys. active_inds x ! i < ?n"
    using active_inds_nth_mem [of _ x] by simp
  show "dims (collision_matrix intersects x lens wids) ?n"
    unfolding cm by (rule fill_pairs_entry(1) [OF dims_zeros r])
  assume ab: "a < ?n" "b < ?n"
  show "mget (collision_matrix intersects x lens wids) a b =
           (if pair_collides intersects x lens wids a b then 1 else 0)"
    unfolding cm fill_pairs_entry(2) [OF dims_zeros r]
    using compact_pairs_iff [OF ab, of intersects lens wids] ab
    by (simp add: mget_zeros)
qed

lemma pair_collides_sym: "pair_collides intersects x lens wids a b = pair_collides intersects x lens wids b a"
  by (auto simp: pair_collides_def max.commute min.commute)

lemma pair_collides_irrefl: "\<not> pair_collides intersects x lens wids a a"
  by (simp add: pair_collides_def)

text \<open>
  C6: for every frame whose pose, length and width tensors have one entry for each
  vehicle, the collision matrix is symmetric, \<open>c[i, j] = c[j, i]\<close> for all indices, and
  its diagonal is zero.
\<close>

theorem C6_collision_matrix_symmetric:
  assumes "length lens = length x" and "length wids = length x"
    and "i < length x" and "j < length x"
  shows "mget (collision_matrix intersects x lens wids) i j =
           mget (collision_matrix intersects x lens wids) j i \<and>
         mget (collision_matrix intersects x lens wids) i i = 0"
  using assms
  by (simp add: collision_matrix_entry(2) pair_collides_irrefl
      pair_collides_sym [of intersects x lens wids i j])

theorem C6_collision_matrix_symmetric_witness:
  "mget (collision_matrix aabb_intersects frame_close [Some 4, Some 4] [Some 2, Some 2]) 0 1 =
     mget (collision_matrix aabb_intersects frame_close [Some 4, Some 4] [Some 2, Some 2]) 1 0 \<and>
   mget (collision_matrix aabb_intersects frame_close [Some 4, Some 4] [Some 2, Some 2]) 0 0 = 0"
  using C6_collision_matrix_symmetric [of "[Some 4, Some 4]" frame_close "[Some 2, Some 2]" 0 1 aabb_intersects]
  by (simp add: frame_close_def)

text \<open>
  C7: a vehicle whose first pose coordinate is NaN is not among the indices for which
  \<open>states_to_polygons\<close> builds a polygon (it builds one for exactly the other
  vehicles), and its row and its column of the collision matrix are zero. The entries
  of the matrix are indexed by the vehicles' indices in the frame: the entry \<open>(a, b)\<close>
  is set exactly when the vehicles \<open>a\<close> and \<open>b\<close> of the frame are both present, differ,
  and their polygons intersect.
\<close>

theorem C7_inactive_excluded:
  assumes "length lens = length x" and "length wids = length x"
    and "a < length x" and "b < length x"
  shows "(isnan (px (x ! a)) \<longrightarrow>
            a \<notin> set (snd (states_to_polygons x lens wids)) \<and>
            mget (collision_matrix intersects x lens wids) a b = 0 \<and>
            mget (collision_matrix intersects x lens wids) b a = 0) \<and>
         set (snd (states_to_polygons x lens wids)) = {i. i < length x \<and> \<not> isnan (px (x ! i))} \<and>
         fst (states_to_polygons x lens wids) =
           map (vehicle_polygon x lens wids) (snd (states_to_polygons x lens wids)) \<and>
         (mget (collision_matrix intersects x lens wids) a b \<noteq> 0 \<longleftrightarrow>
            pair_collides intersects x lens wids a b)"
  using assms
  by (simp add: collision_matrix_entry(2) states_to_polygons_eq active_inds_set pair_collides_def)

theorem C7_inactive_excluded_witness:
  "isnan (px (frame_gap ! 1)) \<and>
   1 \<notin> set (snd (states_to_polygons frame_gap [Some 4, Some 4, Some 4] [Some 2, Some 2, Some 2])) \<and>
   mget (collision_matrix aabb_intersects frame_gap [Some 4, Some 4, Some 4] [Some 2, Some 2, Some 2]) 1 2 = 0 \<and>
   mget (collision_matrix aabb_intersects frame_gap [Some 4, Some 4, Some 4] [Some 2, Some 2, Some 2]) 2 1 = 0"
  using C7_inactive_excluded [of "[Some 4, Some 4, Some 4]" frame_gap "[Some 2, Some 2, Some 2]" 1 2 aabb_intersects]
  by (simp add: frame_gap_def nan_pose_def isnan_def)

lemma madd_entry:
  assumes "dims A n" and "dims B n"
  shows "dims (madd A B) n"
    and "a < n \<Longrightarrow> b < n \<Longrightarrow> mget (madd A B) a b = mget A a b + mget B a b"
  using assms by (auto simp: dims_def madd_def mget_def)

lemma trajectory_sum:
  assumes "dims c n" and "\<forall>xt\<in>set xs. dims (f xt) n" and "a < n" and "b < n"
  shows "dims (foldl (\<lambda>cols xt. madd cols (f xt)) c xs) n \<and>
         mget (foldl (\<lambda>cols xt. madd cols (f xt)) c xs) a b =
           mget c a b + sum_list (map (\<lambda>xt. mget (f xt) a b) xs)"
  using assms
proof (induction xs arbitrary: c)
  case Nil
  then show ?case by simp
next
  case (Cons xt xs)
  from Cons.prems have d: "dims (madd c (f xt)) n" by (simp add: madd_entry(1))
  from Cons.prems have e: "mget (madd c (f xt)) a b = mget c a b + mget (f xt) a b"
    by (simp add: madd_entry(2))
  from Cons.prems have r: "\<forall>xt\<in>set xs. dims (f xt) n" by simp
  from Cons.IH [OF d r Cons.prems(3,4)] e show ?case by simp
qed

lemma sum_list_pos_iff: "sum_list (map g xs) \<noteq> (0::nat) \<longleftrightarrow> (\<exists>x\<in>set xs. g x \<noteq> 0)"
  by (induction xs) auto

lemma count_nonzero_card:
  assumes "dims c n"
  shows "count_nonzero c = card {(a, b). a < n \<and> b < n \<and> mget c a b \<noteq> 0}"
proof -
  have row: "length (filter (\<lambda>v. v \<noteq> 0) (c ! a)) = card {b. b < n \<and> mget c a b \<noteq> 0}" if "a < n" for a
    using that assms by (simp add: length_filter_conv_card dims_def mget_def)
  have "count_nonzero c = (\<Sum>a = 0..<n. length (filter (\<lambda>v. v \<noteq> 0) (c ! a)))"
    using assms by (simp add: count_nonzero_def sum_list_sum_nth dims_def)
  also have "\<dots> = (\<Sum>a\<in>{0..<n}. card {b. b < n \<and> mget c a b \<noteq> 0})"
    using row by (intro sum.cong refl) simp
  also have "\<dots> = card (SIGMA a:{0..<n}. {b. b < n \<and> mget c a b \<noteq> 0})"
    by (simp add: card_SigmaI)
  also have "(SIGMA a:{0..<n}. {b. b < n \<and> mget c a b \<noteq> 0}) = {(a, b). a < n \<and> b < n \<and> mget c a b \<noteq> 0}"
    by auto
  finally show ?thesis .
qed

lemma card_symmetric_pairs:
  assumes sym: "\<And>a b. Q a b = Q b a" and irr: "\<And>a. \<not> Q a a"
  shows "card {(a, b). a < n \<and> b < n \<and> Q a b} = 2 * card {(a, b). a < b \<and> b < (n::nat) \<and> Q a b}"
proof -
  let ?U = "{(a, b). a < b \<and> b < n \<and> Q a b}"
  let ?L = "prod.swap ` ?U"
  have fin: "finite ?U"
    by (rule finite_subset [of _ "{..<n} \<times> {..<n}"]) auto
  have "{(a, b). a < n \<and> b < n \<and> Q a b} = ?U \<union> ?L"
  proof (rule set_eqI)
    fix p :: "nat \<times> nat"
    obtain a b where p: "p = (a, b)" by (cases p)
    have "a < b \<or> b < a \<or> a = b" by auto
    then show "p \<in> {(a, b). a < n \<and> b < n \<and> Q a b} \<longleftrightarrow> p \<in> ?U \<union> ?L"
      unfolding p using sym [of a b] irr [of a] by (auto simp: image_iff)
  qed
  moreover have "?U \<inter> ?L = {}" by auto
  moreover have "card ?L = card ?U" by (rule card_image) simp
  ultimately show ?thesis using fin by (simp add: card_Un_disjoint)
qed

text \<open>The example frames, evaluated.\<close>

lemma poly_eval: "state_to_polygon (mk_pose x y) (Some 4) (Some 2) =
   [(Some (x - 2), Some (y + 1)), (Some (x - 2), Some (y - 1)), (Some (x + 2), Some (y - 1)), (Some (x + 2), Some (y + 1))]"
  by (simp add: state_to_polygon_def mk_pose_def Let_def vadd_def vsub_def vscale_def fhalf_def
      fcos_def fsin_def fneg_def fl1_def fadd_def fsub_def fmul_def fl2_def)

lemma stp_eval: "states_to_polygons [mk_pose x y, mk_pose u w] [Some 4, Some 4] [Some 2, Some 2]
   = ([state_to_polygon (mk_pose x y) (Some 4) (Some 2), state_to_polygon (mk_pose u w) (Some 4) (Some 2)], [0, 1])"
  by (simp add: states_to_polygons_def mask_def Let_def isnan_def mk_pose_def)

lemma cm_close: "collision_matrix aabb_intersects frame_close [Some 4, Some 4] [Some 2, Some 2] = [[0, 1], [1, 0]]"
  by (simp add: collision_matrix_def frame_close_def stp_eval poly_eval fill_pairs_def zeros_def
      mset_def aabb_intersects_def numeral_2_eq_2)

lemma cm_apart: "collision_matrix aabb_intersects frame_apart [Some 4, Some 4] [Some 2, Some 2] = [[0, 0], [0, 0]]"
  by (simp add: collision_matrix_def frame_apart_def stp_eval poly_eval fill_pairs_def zeros_def
      mset_def aabb_intersects_def numeral_2_eq_2)

lemma len_apart: "length frame_apart = 2" by (simp add: frame_apart_def)

lemma madd22: "madd [[a, b], [c, d]] [[e, f], [g, h]] = [[a + e, b + f], [c + g, d + h]]"
  by (simp add: madd_def)

lemma zeros22: "zeros 2 2 = [[0, 0], [0, 0]]"
  by (simp add: zeros_def numeral_2_eq_2)

lemma traj_sum: "foldl (\<lambda>cols xt. madd cols (collision_matrix aabb_intersects xt [Some 4, Some 4] [Some 2, Some 2]))
                   (zeros 2 2) example_trajectory = [[0, 2], [2, 0]]"
  by (simp add: example_trajectory_def cm_close cm_apart madd22 zeros22)

lemma cnz: "count_nonzero [[0, 2], [2, 0]] = 2" "count_nonzero [[0, Suc 0], [Suc 0, 0]] = 2" "count_nonzero [[0, 0], [0, 0]] = 0"
  by (simp_all add: count_nonzero_def)


text \<open>
  C1, as stated: the trajectory count is the number of colliding (pair, frame)
  incidents, so that two vehicles colliding at exactly frames 2 and 5 of a 6-frame
  trajectory give 2. In the example trajectory the two vehicles collide at exactly
  frames 2 and 5, and \<open>count_collisions_trajectory\<close> returns 1: the summed matrix has
  the entry 2 at \<open>(0, 1)\<close> and \<open>(1, 0)\<close>, and \<open>count_nonzero\<close> counts each entry once.
\<close>

theorem C1_trajectory_count_counterexample:
  "check_collisions_trajectory aabb_intersects example_trajectory [Some 4, Some 4] [Some 2, Some 2]
     = [False, False, True, False, False, True] \<and>
   count_collisions_trajectory aabb_intersects example_trajectory [Some 4, Some 4] [Some 2, Some 2] = 1"
proof -
  have "(case example_trajectory of [] \<Rightarrow> 0 | x0 # _ \<Rightarrow> length x0) = 2"
    by (simp add: example_trajectory_def len_apart)
  then have "count_collisions_trajectory aabb_intersects example_trajectory [Some 4, Some 4] [Some 2, Some 2] = 1"
    by (simp add: count_collisions_trajectory_def traj_sum cnz)
  moreover have "check_collisions_trajectory aabb_intersects example_trajectory [Some 4, Some 4] [Some 2, Some 2]
     = [False, False, True, False, False, True]"
    by (simp add: check_collisions_trajectory_def check_collisions_def count_collisions_def
        example_trajectory_def cm_close cm_apart cnz)
  ultimately show ?thesis by simp
qed

text \<open>
  C1, amended: for every sequence of frames, each with one pose for each vehicle, the
  count returned by \<open>count_collisions_trajectory\<close> is the number of unordered pairs
  of vehicles that overlap in at least one frame; a pair counts once however many
  frames it overlaps in.
\<close>

theorem C1_trajectory_count_pairs:
  assumes "\<forall>xt\<in>set x. length xt = length lens" and "length wids = length lens"
  shows "count_collisions_trajectory intersects x lens wids =
           card {(a, b). a < b \<and> b < length lens \<and>
                   (\<exists>xt\<in>set x. pair_collides intersects xt lens wids a b)}"
proof (cases x)
  case Nil
  then show ?thesis
    by (simp add: count_collisions_trajectory_def zeros_def count_nonzero_def)
next
  case (Cons x0 xs)
  define n where "n = length lens"
  define Q where "Q a b = (\<exists>xt\<in>set x. pair_collides intersects xt lens wids a b)" for a b
  define S where "S = foldl (\<lambda>cols xt. madd cols (collision_matrix intersects xt lens wids)) (zeros n n) x"
  from Cons assms(1) have nv0: "(case x of [] \<Rightarrow> 0 | x0 # _ \<Rightarrow> length x0) = n"
    by (simp add: n_def)
  have cnt: "count_collisions_trajectory intersects x lens wids = count_nonzero S div 2"
    by (simp add: count_collisions_trajectory_def nv0 S_def)
  have dm: "\<forall>xt\<in>set x. dims (collision_matrix intersects xt lens wids) n"
  proof
    fix xt assume "xt \<in> set x"
    with assms have l: "length lens = length xt" "length wids = length xt" by simp_all
    from collision_matrix_entry(1) [OF l] l show "dims (collision_matrix intersects xt lens wids) n"
      by (simp add: n_def)
  qed
  have dS: "dims S n"
    unfolding S_def
  proof (cases "0 < n")
    case True
    from trajectory_sum [OF dims_zeros dm True True]
    show "dims (foldl (\<lambda>cols xt. madd cols (collision_matrix intersects xt lens wids)) (zeros n n) x) n"
      by (rule conjunct1)
  next
    case False
    have "\<And>c. dims c 0 \<Longrightarrow> dims (foldl (\<lambda>cols xt. madd cols (collision_matrix intersects xt lens wids)) c x) 0"
      by (induction x) (simp_all add: dims_def madd_def)
    with False show "dims (foldl (\<lambda>cols xt. madd cols (collision_matrix intersects xt lens wids)) (zeros n n) x) n"
      by (simp add: dims_zeros)
  qed
  have ent: "mget S a b \<noteq> 0 \<longleftrightarrow> Q a b" if ab: "a < n" "b < n" for a b
  proof -
    from trajectory_sum [OF dims_zeros dm ab]
    have "mget S a b = sum_list (map (\<lambda>xt. mget (collision_matrix intersects xt lens wids) a b) x)"
      unfolding S_def using ab by (simp add: mget_zeros)
    then have "mget S a b \<noteq> 0 \<longleftrightarrow> (\<exists>xt\<in>set x. mget (collision_matrix intersects xt lens wids) a b \<noteq> 0)"
      by (simp only: sum_list_pos_iff)
    also have "\<dots> \<longleftrightarrow> Q a b"
      unfolding Q_def
    proof (rule bex_cong [OF refl])
      fix xt assume "xt \<in> set x"
      with assms have l: "length lens = length xt" "length wids = length xt" by simp_all
      from ab l have "a < length xt" "b < length xt" by (simp_all add: n_def)
      from collision_matrix_entry(2) [OF l this]
      show "mget (collision_matrix intersects xt lens wids) a b \<noteq> 0 \<longleftrightarrow>
            pair_collides intersects xt lens wids a b"
        by simp
    qed
    finally show ?thesis .
  qed
  have "{(a, b). a < n \<and> b < n \<and> mget S a b \<noteq> 0} = {(a, b). a < n \<and> b < n \<and> Q a b}"
    using ent by auto
  then have "count_nonzero S = card {(a, b). a < n \<and> b < n \<and> Q a b}"
    using count_nonzero_card [OF dS] by simp
  also have "\<dots> = 2 * card {(a, b). a < b \<and> b < n \<and> Q a b}"
    by (rule card_symmetric_pairs) (auto simp: Q_def pair_collides_sym pair_collides_irrefl)
  finally show ?thesis
    unfolding cnt by (simp add: n_def Q_def)
qed

theorem C1_trajectory_count_pairs_witness:
  "count_collisions_trajectory aabb_intersects example_trajectory [Some 4, Some 4] [Some 2, Some 2] =
     card {(a, b). a < b \<and> b < length [Some 4, Some (4::real)] \<and>
            (\<exists>xt\<in>set example_trajectory.
                pair_collides aabb_intersects xt [Some 4, Some 4] [Some 2, Some 2] a b)}"
  using C1_trajectory_count_pairs [of example_trajectory "[Some 4, Some 4]" "[Some 2, Some 2]" aabb_intersects]
  by (simp add: example_trajectory_def frame_apart_def frame_close_def)

section \<open>Facts about paths\<close>

lemma path_s_length:
  "length (path_s P state delta n is_distance override) = nv P"
  "i < nv P \<Longrightarrow> length (path_s P state delta n is_distance override ! i) = n"
  by (simp_all add: path_s_def Let_def)

lemma fgt_not_fle: "fgt a b \<Longrightarrow> \<not> fle a b"
  by (auto simp: fgt_def fle_def split: option.splits)

text \<open>
  C8: for each element \<open>sk\<close> of the arc lengths \<open>s\<close> at which \<open>_generate_paths\<close> evaluates
  the path of vehicle \<open>i\<close>: if \<open>sk\<close> is within the vehicle's own \<open>smax\<close>, the position is
  the Horner evaluation of the position polynomials at \<open>sk\<close>; if \<open>sk\<close> exceeds it, the
  position is \<open>position(smax) + (sk - smax) * derivative(smax)\<close>. The choice is made for
  each element on its own.
\<close>

theorem C8_generate_paths_elementwise:
  assumes "track_shapes P" and "length state = nv P" and "i < nv P" and "k < n"
    and "sk = path_s P state delta n is_distance override ! i ! k"
    and "(x, y) = generate_paths P state delta n is_distance override"
  shows "(fle sk (smax P ! i) \<longrightarrow>
            x ! i ! k = horner_scheme sk (xpoly P ! i) \<and>
            y ! i ! k = horner_scheme sk (ypoly P ! i)) \<and>
         (fgt sk (smax P ! i) \<longrightarrow>
            x ! i ! k = fadd (horner_scheme (smax P ! i) (xpoly P ! i))
                             (fmul (fsub sk (smax P ! i)) (horner_scheme (smax P ! i) (dxpoly P ! i))) \<and>
            y ! i ! k = fadd (horner_scheme (smax P ! i) (ypoly P ! i))
                             (fmul (fsub sk (smax P ! i)) (horner_scheme (smax P ! i) (dypoly P ! i))))"
proof -
  from assms(3,4) have k: "k < length (path_s P state delta n is_distance override ! i)"
    by (simp add: path_s_length)
  from assms(6) have x: "x = fst (generate_paths P state delta n is_distance override)"
    and y: "y = snd (generate_paths P state delta n is_distance override)"
    by (metis fst_conv, metis snd_conv)
  from assms(1,3) have l: "i < length (smax P)" "i < length (xpoly P)" "i < length (ypoly P)"
    "i < length (dxpoly P)" "i < length (dypoly P)"
    by (simp_all add: track_shapes_def)
  have len: "i < length (path_s P state delta n is_distance override)"
    using assms(3) by (simp add: path_s_length)
  show ?thesis
    unfolding x y generate_paths_def Let_def assign_not_def line_rows_def horner_rows_def
    using assms(5) k l len by (simp add: fgt_not_fle)
qed


lemma example_path_s: "path_s example_params [(Some 85, Some 5)] 10 2 True False = [[Some 95, Some 105]]"
  by (simp add: path_s_def example_params_def Let_def fadd_def fl2_def numeral_2_eq_2)

lemma example_shapes: "track_shapes example_params"
  by (simp add: track_shapes_def example_params_def)

theorem C8_generate_paths_elementwise_witness:
  "fst (generate_paths example_params [(Some 85, Some 5)] 10 2 True False) ! 0 ! 0 = Some 95 \<and>
   fst (generate_paths example_params [(Some 85, Some 5)] 10 2 True False) ! 0 ! 1 = Some 105 \<and>
   snd (generate_paths example_params [(Some 85, Some 5)] 10 2 True False) ! 0 ! 1 = Some 0"
  using C8_generate_paths_elementwise [where P = example_params and state = "[(Some 85, Some 5)]"
      and i = 0 and k = 0 and n = 2 and delta = 10 and is_distance = True and override = False
      and sk = "Some 95"
      and x = "fst (generate_paths example_params [(Some 85, Some 5)] 10 2 True False)"
      and y = "snd (generate_paths example_params [(Some 85, Some 5)] 10 2 True False)"]
    C8_generate_paths_elementwise [where P = example_params and state = "[(Some 85, Some 5)]"
      and i = 0 and k = 1 and n = 2 and delta = 10 and is_distance = True and override = False
      and sk = "Some 105"
      and x = "fst (generate_paths example_params [(Some 85, Some 5)] 10 2 True False)"
      and y = "snd (generate_paths example_params [(Some 85, Some 5)] 10 2 True False)"]
  by (simp add: example_path_s example_shapes)
     (simp add: example_params_def horner_scheme_def fle_def fgt_def fadd_def fsub_def fmul_def fl2_def)

section \<open>Facts about the relative state\<close>

lemma diff_row:
  "(map2 fsub (split_velocity q) (split_velocity p))
     [4 := fto_circle (map2 fsub (split_velocity q) (split_velocity p) ! 4)] =
   [fsub (px q) (px p), fsub (py q) (py p),
    fsub (fmul (vel q) (fcos (psi q))) (fmul (vel p) (fcos (psi p))),
    fsub (fmul (vel q) (fsin (psi q))) (fmul (vel p) (fsin (psi p))),
    fto_circle (fsub (psi q) (psi p)),
    fsub (psidot q) (psidot p)]"
  by (simp add: split_velocity_def eval_nat_numeral)

lemma relstate1_entry:
  assumes "i < length projstate" and "j < length projstate"
  shows "map (map (\<lambda>d. d[4 := fto_circle (d ! 4)]))
           (map (\<lambda>pi. map (\<lambda>pj. map2 fsub pj pi) (map split_velocity projstate))
              (map split_velocity projstate)) ! i ! j =
         (map2 fsub (split_velocity (projstate ! j)) (split_velocity (projstate ! i)))
           [4 := fto_circle (map2 fsub (split_velocity (projstate ! j)) (split_velocity (projstate ! i)) ! 4)]"
  using assms by simp


text \<open>
  C9, amended: \<open>_relative_state\<close> returns (the adjacency mask, when masking is enabled,
  having the shape of the tensor), and for every ordered pair \<open>i \<noteq> j\<close> that is not
  masked out, the entry \<open>(i, j)\<close> is the componentwise difference of vehicle \<open>j\<close>'s row
  minus vehicle \<open>i\<close>'s row, with the speed decomposed into \<open>(v cos \<psi>, v sin \<psi>)\<close>, so
  that the six channels are the differences of \<open>x\<close>, \<open>y\<close>, \<open>vx\<close>, \<open>vy\<close>, \<open>\<psi>\<close> and
  \<open>\<psi>dot\<close>, the heading difference wrapped by \<open>to_circle\<close>. Every diagonal entry is NaN
  in all six channels, and so is, when masking is enabled, every entry of a pair that
  is not adjacent in the interaction graph.
\<close>

theorem C9_relative_state_entries:
  assumes "mask_relstate P \<longrightarrow>
             length adjacency = length projstate \<and>
             list_all (\<lambda>row. length row = length projstate) adjacency"
    and "i < length projstate" and "j < length projstate"
    and "p = projstate ! i" and "q = projstate ! j"
  shows "\<exists>rel. relative_state P adjacency projstate = Inr rel \<and>
           rel ! i ! j =
             (if i = j \<or> (mask_relstate P \<and> \<not> adjacency ! i ! j) then replicate 6 None
              else [fsub (px q) (px p), fsub (py q) (py p),
                    fsub (fmul (vel q) (fcos (psi q))) (fmul (vel p) (fcos (psi p))),
                    fsub (fmul (vel q) (fsin (psi q))) (fmul (vel p) (fsin (psi p))),
                    fto_circle (fsub (psi q) (psi p)),
                    fsub (psidot q) (psidot p)])"
proof -
  define m where "m = length projstate"
  define D where "D = [fsub (px q) (px p), fsub (py q) (py p),
                    fsub (fmul (vel q) (fcos (psi q))) (fmul (vel p) (fcos (psi p))),
                    fsub (fmul (vel q) (fsin (psi q))) (fmul (vel p) (fsin (psi p))),
                    fto_circle (fsub (psi q) (psi p)),
                    fsub (psidot q) (psidot p)]"
  define N :: "fl list" where "N = replicate 6 None"
  define r1 where "r1 = map (map (\<lambda>d. d[4 := fto_circle (d ! 4)]))
           (map (\<lambda>pi. map (\<lambda>pj. map2 fsub pj pi) (map split_velocity projstate))
              (map split_velocity projstate))"
  define r2 where "r2 = map (\<lambda>i. map (\<lambda>j. if i = j then N else r1 ! i ! j) [0..<m]) [0..<m]"
  define r3 where "r3 = map (\<lambda>i. map (\<lambda>j. if \<not> adjacency ! i ! j then N else r2 ! i ! j) [0..<m]) [0..<m]"
  define ok where "ok = (length adjacency = m \<and> list_all (\<lambda>row. length row = m) adjacency)"
  have unf: "relative_state P adjacency projstate =
      (if mask_relstate P then (if ok then Inr r3 else Inl Index_error) else Inr r2)"
    unfolding relative_state_def Let_def r3_def r2_def r1_def N_def m_def ok_def by simp
  from assms(2,3) have ij: "i < m" "j < m" by (simp_all add: m_def)
  have e1: "r1 ! i ! j = D"
    unfolding r1_def relstate1_entry [OF assms(2,3)] D_def assms(4,5) by (rule diff_row)
  have e2: "r2 ! i ! j = (if i = j then N else D)"
    using ij by (simp add: r2_def e1)
  have "r3 ! i ! j = (if \<not> adjacency ! i ! j then N else r2 ! i ! j)"
    using ij by (simp add: r3_def)
  then have e3: "r3 ! i ! j = (if i = j \<or> \<not> adjacency ! i ! j then N else D)"
    unfolding e2 by simp
  show ?thesis
  proof (cases "mask_relstate P")
    case False
    with e2 show ?thesis unfolding unf N_def D_def by simp
  next
    case True
    with assms(1) have ok by (simp add: ok_def m_def)
    with True e3 show ?thesis unfolding unf N_def D_def by auto
  qed
qed

text \<open>
  C9, as stated: for every ordered pair \<open>i \<noteq> j\<close> the entry \<open>(i, j)\<close> is the componentwise
  difference. With masking enabled and a graph in which the two vehicles of the frame
  are not adjacent, the entry \<open>(0, 1)\<close> is NaN in all six channels, while the
  difference is \<open>(1, 0, 0, 0, 0, 0)\<close>.
\<close>

theorem C9_relative_state_counterexample:
  "relative_state (example_params\<lparr>mask_relstate := True\<rparr>) [[False, False], [False, False]] frame_close
     = Inr [[replicate 6 None, replicate 6 None], [replicate 6 None, replicate 6 None]] \<and>
   (map2 fsub (split_velocity (frame_close ! 1)) (split_velocity (frame_close ! 0)))
      [4 := fto_circle (map2 fsub (split_velocity (frame_close ! 1)) (split_velocity (frame_close ! 0)) ! 4)]
     = [Some 1, Some 0, Some 0, Some 0, Some 0, Some 0]"
proof -
  have z: "to_circle 0 = 0" by (rule to_circle_fixed) simp_all
  have "relative_state (example_params\<lparr>mask_relstate := True\<rparr>) [[False, False], [False, False]] frame_close
     = Inr [[replicate 6 None, replicate 6 None], [replicate 6 None, replicate 6 None]]"
    by (simp add: relative_state_def Let_def frame_close_def example_params_def del: replicate.simps)
  moreover have "(map2 fsub (split_velocity (frame_close ! 1)) (split_velocity (frame_close ! 0)))
      [4 := fto_circle (map2 fsub (split_velocity (frame_close ! 1)) (split_velocity (frame_close ! 0)) ! 4)]
     = [Some 1, Some 0, Some 0, Some 0, Some 0, Some 0]"
    unfolding diff_row
    by (simp add: frame_close_def mk_pose_def fsub_def fmul_def fl2_def fcos_def fsin_def fl1_def fto_circle_def z)
  ultimately show ?thesis by (rule conjI)
qed

theorem C9_relative_state_entries_witness:
  "(\<exists>rel. relative_state example_params [] frame_close = Inr rel \<and>
      rel ! 0 ! 1 = [Some 1, Some 0, Some 0, Some 0, Some 0, Some 0] \<and>
      rel ! 1 ! 1 = replicate 6 None) \<and>
   (\<exists>rel. relative_state (example_params\<lparr>mask_relstate := True\<rparr>) [[False, True], [False, False]] frame_close
             = Inr rel \<and>
      rel ! 0 ! 1 = [Some 1, Some 0, Some 0, Some 0, Some 0, Some 0] \<and>
      rel ! 1 ! 0 = replicate 6 None)"
proof -
  have z: "to_circle 0 = 0" by (rule to_circle_fixed) simp_all
  from C9_relative_state_entries [of example_params "[]" frame_close 0 1 "frame_close ! 0" "frame_close ! 1"]
    C9_relative_state_entries [of example_params "[]" frame_close 1 1 "frame_close ! 1" "frame_close ! 1"]
  have a: "\<exists>rel. relative_state example_params [] frame_close = Inr rel \<and>
      rel ! 0 ! 1 = [Some 1, Some 0, Some 0, Some 0, Some 0, Some 0] \<and>
      rel ! 1 ! 1 = replicate 6 None"
    by (simp add: example_params_def frame_close_def mk_pose_def fsub_def fmul_def fl2_def fcos_def
        fsin_def fl1_def fto_circle_def z del: replicate.simps) auto
  from C9_relative_state_entries [of "example_params\<lparr>mask_relstate := True\<rparr>" "[[False, True], [False, False]]"
      frame_close 0 1 "frame_close ! 0" "frame_close ! 1"]
    C9_relative_state_entries [of "example_params\<lparr>mask_relstate := True\<rparr>" "[[False, True], [False, False]]"
      frame_close 1 0 "frame_close ! 1" "frame_close ! 0"]
  have b: "\<exists>rel. relative_state (example_params\<lparr>mask_relstate := True\<rparr>) [[False, True], [False, False]] frame_close
             = Inr rel \<and>
      rel ! 0 ! 1 = [Some 1, Some 0, Some 0, Some 0, Some 0, Some 0] \<and>
      rel ! 1 ! 0 = replicate 6 None"
    by (simp add: example_params_def frame_close_def mk_pose_def fsub_def fmul_def fl2_def fcos_def
        fsin_def fl1_def fto_circle_def z del: replicate.simps) auto
  from a b show ?thesis by (rule conjI)
qed

section \<open>Facts about the simulation step\<close>

lemma step_Inr:
  assumes "step P contains project_state intersects sim action = Inr (sim1, info)"
  shows "\<exists>nxt act exc.
           next_state P contains (sim_state sim) action = Inr (nxt, act, exc) \<and>
           sim_exceeded sim1 = map2 (\<or>) (sim_exceeded sim) exc \<and>
           should_spawn info =
             map2 (\<lambda>(t0i, e) n. fle t0i (Some (minT P + dt P * real (sim_ind sim + 1))) \<and> \<not> e \<and> \<not> n)
               (zip (t0 P) (sim_exceeded sim1)) (map (\<lambda>x. \<not> isnan (fst x)) (sim_state sim)) \<and>
           sim_state sim1 =
             map2 (\<lambda>(x, sp) (s0i, v0i). if sp then (s0i, v0i) else x)
               (zip nxt (should_spawn info)) (zip (s0 P) (v0 P))"
proof (cases "next_state P contains (sim_state sim) action")
  case (Inl e)
  with assms show ?thesis by (simp add: step_def Let_def split: if_splits)
next
  case (Inr r)
  obtain nxt act exc where r: "r = (nxt, act, exc)" by (cases r)
  from assms Inr r show ?thesis
    by (auto simp: step_def Let_def split: if_splits)
qed


lemma euler_step_nan_state:
  assumes "i < length state" "i < length action" "i < length (smax P)" "state ! i = (None, None)"
  shows "fst (euler_step P state action) ! i = (None, None)"
  unfolding euler_step_nth(2) [OF assms(1-3)] using assms(4)
  by (simp add: radd_def fl2_def clamp_nonneg_def fl1_def)

lemma euler_step_exceeded_row:
  assumes "i < length state" "i < length action" "i < length (smax P)"
    and "snd (euler_step P state action) ! i"
  shows "fst (euler_step P state action) ! i = (None, None)"
  unfolding euler_step_nth(2) [OF assms(1-3)] using assms(4) by simp

lemma step_vehicle:
  assumes "track_shapes P" and "sim_shapes P sim" and "length action = nv P" and "i < nv P"
    and "step P contains project_state intersects sim action = Inr (sim1, info)"
  shows "sim_shapes P sim1"
    and "sim_exceeded sim ! i \<Longrightarrow> sim_exceeded sim1 ! i"
    and "sim_exceeded sim1 ! i \<Longrightarrow> \<not> should_spawn info ! i"
    and "sim_exceeded sim1 ! i \<Longrightarrow> sim_exceeded sim ! i \<longrightarrow> sim_state sim ! i = (None, None) \<Longrightarrow>
         sim_state sim1 ! i = (None, None)"
proof -
  from step_Inr [OF assms(5)] obtain nxt act exc where
    ns: "next_state P contains (sim_state sim) action = Inr (nxt, act, exc)"
    and ex: "sim_exceeded sim1 = map2 (\<or>) (sim_exceeded sim) exc"
    and sp: "should_spawn info =
             map2 (\<lambda>(t0i, e) n. fle t0i (Some (minT P + dt P * real (sim_ind sim + 1))) \<and> \<not> e \<and> \<not> n)
               (zip (t0 P) (sim_exceeded sim1)) (map (\<lambda>x. \<not> isnan (fst x)) (sim_state sim))"
    and st: "sim_state sim1 =
             map2 (\<lambda>(x, sp) (s0i, v0i). if sp then (s0i, v0i) else x)
               (zip nxt (should_spawn info)) (zip (s0 P) (v0 P))"
    by blast
  from assms(1) have tl: "length (smax P) = nv P" "length (t0 P) = nv P" "length (s0 P) = nv P"
    "length (v0 P) = nv P" by (simp_all add: track_shapes_def)
  from assms(2) have sl: "length (sim_state sim) = nv P" "length (sim_exceeded sim) = nv P"
    by (simp_all add: sim_shapes_def)
  from next_state_Inr(2) [OF ns] assms(3) have al: "length act = nv P" by auto
  have n: "nxt = fst (euler_step P (sim_state sim) act)" and x: "exc = snd (euler_step P (sim_state sim) act)"
    using next_state_Inr(1) [OF ns] by (metis fst_conv, metis snd_conv)
  have nl: "length nxt = nv P" and xl: "length exc = nv P"
    unfolding n x by (simp_all add: euler_step_length sl al tl)
  have el: "length (sim_exceeded sim1) = nv P" by (simp add: ex sl xl)
  have pl: "length (should_spawn info) = nv P" by (simp add: sp tl el sl)
  have stl: "length (sim_state sim1) = nv P" by (simp add: st nl pl tl)
  show "sim_shapes P sim1" by (simp add: sim_shapes_def stl el)
  have ei: "sim_exceeded sim1 ! i = (sim_exceeded sim ! i \<or> exc ! i)"
    using assms(4) by (simp add: ex sl xl)
  then show "sim_exceeded sim ! i \<Longrightarrow> sim_exceeded sim1 ! i" by simp
  have si: "should_spawn info ! i =
      (fle (t0 P ! i) (Some (minT P + dt P * real (sim_ind sim + 1))) \<and> \<not> sim_exceeded sim1 ! i \<and>
       isnan (fst (sim_state sim ! i)))"
    using assms(4) by (simp add: sp tl el sl)
  then show "sim_exceeded sim1 ! i \<Longrightarrow> \<not> should_spawn info ! i" by simp
  have sti: "sim_state sim1 ! i = (if should_spawn info ! i then (s0 P ! i, v0 P ! i) else nxt ! i)"
    using assms(4) by (simp add: st nl pl tl)
  have idx: "i < length (sim_state sim)" "i < length act" "i < length (smax P)"
    using assms(4) by (simp_all add: sl al tl)
  assume e1: "sim_exceeded sim1 ! i" and inv: "sim_exceeded sim ! i \<longrightarrow> sim_state sim ! i = (None, None)"
  have "nxt ! i = (None, None)"
  proof (cases "sim_exceeded sim ! i")
    case True
    with inv have "sim_state sim ! i = (None, None)" by simp
    then show ?thesis unfolding n by (rule euler_step_nan_state [OF idx])
  next
    case False
    with e1 ei have "exc ! i" by simp
    then show ?thesis unfolding n x by (rule euler_step_exceeded_row [OF idx])
  qed
  with e1 si sti show "sim_state sim1 ! i = (None, None)" by simp
qed


lemma run_exceeded_stays:
  assumes "track_shapes P" and "i < nv P"
  shows "sim_shapes P sim \<Longrightarrow> \<forall>a\<in>set as. length a = nv P \<Longrightarrow>
         sim_exceeded sim ! i \<Longrightarrow> sim_state sim ! i = (None, None) \<Longrightarrow>
         run P contains project_state intersects sim as = Inr tr \<Longrightarrow>
         \<forall>(s, inf)\<in>set tr. sim_exceeded s ! i \<and> sim_state s ! i = (None, None) \<and> \<not> should_spawn inf ! i"
proof (induction as arbitrary: sim tr)
  case Nil
  then show ?case by simp
next
  case (Cons a as)
  from Cons.prems(5) obtain sim1 info rest where
    s: "step P contains project_state intersects sim a = Inr (sim1, info)"
    and r: "run P contains project_state intersects sim1 as = Inr rest"
    and t: "tr = (sim1, info) # rest"
    by (auto split: sum.splits)
  from Cons.prems(2) have la: "length a = nv P" and las: "\<forall>a\<in>set as. length a = nv P" by simp_all
  note v = step_vehicle [OF assms(1) Cons.prems(1) la assms(2) s]
  from v(2) Cons.prems(3) have e1: "sim_exceeded sim1 ! i" by simp
  from v(3) e1 have ns: "\<not> should_spawn info ! i" by simp
  from v(4) e1 Cons.prems(4) have n1: "sim_state sim1 ! i = (None, None)" by simp
  from Cons.IH [OF v(1) las e1 n1 r] e1 ns n1 t show ?case by simp
qed

text \<open>The invariant holds when an episode starts, and every step keeps it.\<close>

lemma reset_invariant:
  assumes "track_shapes P"
  shows "sim_shapes P (reset P)"
    and "i < nv P \<Longrightarrow> \<not> sim_exceeded (reset P) ! i"
  using assms by (simp_all add: reset_def sim_shapes_def track_shapes_def)

lemma step_invariant:
  assumes "track_shapes P" and "sim_shapes P sim" and "length action = nv P" and "i < nv P"
    and "step P contains project_state intersects sim action = Inr (sim1, info)"
    and "sim_exceeded sim ! i \<longrightarrow> sim_state sim ! i = (None, None)"
  shows "sim_exceeded sim1 ! i \<longrightarrow> sim_state sim1 ! i = (None, None)"
  using step_vehicle(4) [OF assms(1-5)] assms(6) by simp

text \<open>
  C10: within an episode (track data and fields with one entry for each vehicle, one
  action for each vehicle, and the exceeded flag of a vehicle set only where its arc
  state is NaN, as it is after \<open>reset\<close> and after every step), once a step returns with
  the exceeded flag of a vehicle set, the vehicle's arc state is NaN and it is not
  spawned, and after every later step of the episode the flag is still set, the
  vehicle does not meet the spawn condition, and its arc state is still NaN.
\<close>

theorem C10_exceeded_monotone:
  assumes "track_shapes P" and "sim_shapes P sim" and "i < nv P"
    and "length a = nv P" and "\<forall>a'\<in>set as. length a' = nv P"
    and "sim_exceeded sim ! i \<longrightarrow> sim_state sim ! i = (None, None)"
    and "step P contains project_state intersects sim a = Inr (sim1, info)"
    and "sim_exceeded sim1 ! i"
    and "run P contains project_state intersects sim1 as = Inr tr"
  shows "sim_state sim1 ! i = (None, None) \<and> \<not> should_spawn info ! i \<and>
         (\<forall>(s, inf)\<in>set tr.
             sim_exceeded s ! i \<and> sim_state s ! i = (None, None) \<and> \<not> should_spawn inf ! i)"
proof -
  note v = step_vehicle [OF assms(1,2,4,3,7)]
  from v(4) assms(6,8) have n1: "sim_state sim1 ! i = (None, None)" by simp
  from v(3) assms(8) have ns: "\<not> should_spawn info ! i" by simp
  from run_exceeded_stays [OF assms(1,3) v(1) assms(5,8) n1 assms(9)] n1 ns
  show ?thesis by simp
qed

text \<open>
  Two steps of the two-vehicle example: the first vehicle leaves its track in the
  first step (\<open>s' = 104 > 100\<close>) and stays out in the second.
\<close>

lemma example_step1:
  "step example_params2 (box_contains (- 10) 10) straight_project aabb_intersects example_sim0
     [Some 0, Some 0] = Inr (example_sim1, example_info)"
  by (simp add: step_def next_state_def euler_step_def Let_def example_params2_def example_sim0_def
      example_sim1_def example_info_def box_contains_def isnan_def fle_def fgt_def radd_def rmul_def
      fl2_def clamp_nonneg_def fl1_def binary64_values)

lemma example_step2:
  "step example_params2 (box_contains (- 10) 10) straight_project aabb_intersects example_sim1
     [Some 0, Some 0] = Inr (example_sim2, example_info)"
  by (simp add: step_def next_state_def euler_step_def Let_def example_params2_def example_sim2_def
      example_sim1_def example_info_def box_contains_def isnan_def fle_def fgt_def radd_def rmul_def
      fl2_def clamp_nonneg_def fl1_def binary64_values)

lemma example_run:
  "run example_params2 (box_contains (- 10) 10) straight_project aabb_intersects example_sim1
     [[Some 0, Some 0]] = Inr [(example_sim2, example_info)]"
  by (simp add: example_step2)

theorem C10_exceeded_monotone_witness:
  "step example_params2 (box_contains (- 10) 10) straight_project aabb_intersects example_sim0
     [Some 0, Some 0] = Inr (example_sim1, example_info) \<and>
   \<not> sim_exceeded example_sim0 ! 0 \<and> sim_exceeded example_sim1 ! 0 \<and>
   sim_state example_sim1 ! 0 = (None, None) \<and> \<not> should_spawn example_info ! 0 \<and>
   sim_exceeded example_sim2 ! 0 \<and> sim_state example_sim2 ! 0 = (None, None)"
  using C10_exceeded_monotone [of example_params2 example_sim0 0 "[Some 0, Some 0]" "[[Some 0, Some 0]]"
      "box_contains (- 10) 10" straight_project aabb_intersects example_sim1 example_info
      "[(example_sim2, example_info)]"]
    example_step1 example_run
  by (simp add: track_shapes_def sim_shapes_def example_params2_def example_sim0_def example_sim1_def
      example_sim2_def example_info_def)

end
